theory Spec2Isabelle
  imports Main "HOL-Library.Sublist"
begin

section \<open>Go library functions used by the program\<close>

text \<open>
  The program is a single Go file (\<^verbatim>\<open>main.go\<close>); the repository holds two revisions of
  it, which differ in the \<^verbatim>\<open>cutOffs\<close> block of \<^verbatim>\<open>parseParams\<close> and in the body of the
  400 response. Strings are byte lists, Go's \<^verbatim>\<open>int\<close> is a 64-bit integer modelled as
  \<^typ>\<open>int\<close>, with its range written out where it matters (\<^verbatim>\<open>strconv.Atoi\<close> checks it,
  the session counter wraps around, and \<^verbatim>\<open>make\<close> refuses a length that is too large),
  and a \<^verbatim>\<open>time.Duration\<close> is a number of nanoseconds.
\<close>

type_synonym duration = int

text \<open>\<^verbatim>\<open>strings.Split(s, sep)\<close> for a separator of one byte: all the pieces, the empty
  ones too; the empty string gives one empty piece.\<close>

fun Split :: "string \<Rightarrow> char \<Rightarrow> string list" where
  "Split [] sep = [[]]"
| "Split (c # cs) sep =
     (if c = sep then [] # Split cs sep
      else (case Split cs sep of [] \<Rightarrow> [[c]] | t # ts \<Rightarrow> (c # t) # ts))"

text \<open>\<^verbatim>\<open>strings.TrimSpace\<close> removes the leading and trailing runes with
  \<^verbatim>\<open>unicode.IsSpace\<close>; these are their UTF-8 encodings (U+0009..U+000D, U+0020, U+0085,
  U+00A0, U+1680, U+2000..U+200A, U+2028, U+2029, U+202F, U+205F, U+3000).\<close>

definition spaceRunes :: "string list" where
  "spaceRunes =
     [[CHR 0x09], [CHR 0x0A], [CHR 0x0B], [CHR 0x0C], [CHR 0x0D], [CHR 0x20],
      [CHR 0xC2, CHR 0x85], [CHR 0xC2, CHR 0xA0], [CHR 0xE1, CHR 0x9A, CHR 0x80],
      [CHR 0xE2, CHR 0x80, CHR 0x80], [CHR 0xE2, CHR 0x80, CHR 0x81],
      [CHR 0xE2, CHR 0x80, CHR 0x82], [CHR 0xE2, CHR 0x80, CHR 0x83],
      [CHR 0xE2, CHR 0x80, CHR 0x84], [CHR 0xE2, CHR 0x80, CHR 0x85],
      [CHR 0xE2, CHR 0x80, CHR 0x86], [CHR 0xE2, CHR 0x80, CHR 0x87],
      [CHR 0xE2, CHR 0x80, CHR 0x88], [CHR 0xE2, CHR 0x80, CHR 0x89],
      [CHR 0xE2, CHR 0x80, CHR 0x8A], [CHR 0xE2, CHR 0x80, CHR 0xA8],
      [CHR 0xE2, CHR 0x80, CHR 0xA9], [CHR 0xE2, CHR 0x80, CHR 0xAF],
      [CHR 0xE2, CHR 0x81, CHR 0x9F], [CHR 0xE3, CHR 0x80, CHR 0x80]]"

function trimLeft :: "string \<Rightarrow> string" where
  "trimLeft s =
     (case find (\<lambda>p. prefix p s) spaceRunes of
        None \<Rightarrow> s
      | Some p \<Rightarrow> trimLeft (drop (length p) s))"
  by pat_completeness auto
termination
proof (relation "measure length")
  fix s p
  assume "find (\<lambda>p. prefix p s) spaceRunes = Some p"
  then have "p \<in> set spaceRunes" and "prefix p s"
    by (auto simp: find_Some_iff)
  then have "p \<noteq> []" and "length p \<le> length s"
    by (auto simp: spaceRunes_def prefix_length_le)
  then show "(drop (length p) s, s) \<in> measure length"
    by (cases p) auto
qed simp

function trimRight :: "string \<Rightarrow> string" where
  "trimRight s =
     (case find (\<lambda>p. suffix p s) spaceRunes of
        None \<Rightarrow> s
      | Some p \<Rightarrow> trimRight (take (length s - length p) s))"
  by pat_completeness auto
termination
proof (relation "measure length")
  fix s p
  assume "find (\<lambda>p. suffix p s) spaceRunes = Some p"
  then have "p \<in> set spaceRunes" and "suffix p s"
    by (auto simp: find_Some_iff)
  then have "p \<noteq> []" and "length p \<le> length s"
    by (auto simp: spaceRunes_def suffix_length_le)
  then show "(take (length s - length p) s, s) \<in> measure length"
    by (cases p) auto
qed simp

declare trimLeft.simps [simp del] trimRight.simps [simp del]

definition TrimSpace :: "string \<Rightarrow> string" where
  "TrimSpace s = trimRight (trimLeft s)"

text \<open>\<^verbatim>\<open>strconv.Atoi\<close> on a 64-bit platform: an optional sign, then one or more decimal
  digits, and the value must fit \<^verbatim>\<open>int64\<close>; anything else is an error.\<close>

definition digitVal :: "char \<Rightarrow> int option" where
  "digitVal c =
     (if (48::nat) \<le> of_char c \<and> of_char c \<le> (57::nat)
      then Some (int (of_char c) - 48) else None)"

fun digitsVal :: "string \<Rightarrow> int \<Rightarrow> int option" where
  "digitsVal [] n = Some n"
| "digitsVal (c # cs) n =
     (case digitVal c of None \<Rightarrow> None | Some d \<Rightarrow> digitsVal cs (n * 10 + d))"

definition Atoi :: "string \<Rightarrow> int option" where
  "Atoi s =
     (case s of
        [] \<Rightarrow> None
      | c # cs \<Rightarrow>
          (let neg = (c = CHR ''-'');
               ds = (if c = CHR ''-'' \<or> c = CHR ''+'' then cs else s)
           in if ds = [] then None
              else (case digitsVal ds 0 of
                      None \<Rightarrow> None
                    | Some n \<Rightarrow>
                        (let v = (if neg then - n else n)
                         in if - (2 ^ 63) \<le> v \<and> v < 2 ^ 63 then Some v else None))))"

text \<open>\<^verbatim>\<open>strconv.Itoa\<close>: the decimal digits, with a minus sign for a negative number.\<close>

function natDigits :: "nat \<Rightarrow> string" where
  "natDigits n =
     (if n < 10 then [''0123456789'' ! n]
      else natDigits (n div 10) @ [''0123456789'' ! (n mod 10)])"
  by pat_completeness auto
termination
  by (relation "measure id") auto

declare natDigits.simps [simp del]

definition Itoa :: "int \<Rightarrow> string" where
  "Itoa i = (if i < 0 then CHR ''-'' # natDigits (nat (- i)) else natDigits (nat i))"

text \<open>Go's integer division truncates towards zero.\<close>

definition quot :: "int \<Rightarrow> int \<Rightarrow> int" where
  "quot a b = sgn a * sgn b * (\<bar>a\<bar> div \<bar>b\<bar>)"

text \<open>\<^verbatim>\<open>url.Values\<close> is a map from a key to its list of values; \<^verbatim>\<open>Get\<close> is the first
  value or the empty string, \<^verbatim>\<open>Has\<close> is the presence of the key.\<close>

type_synonym Values = "string \<rightharpoonup> string list"

definition Get :: "Values \<Rightarrow> string \<Rightarrow> string" where
  "Get q k = (case q k of None \<Rightarrow> [] | Some [] \<Rightarrow> [] | Some (v # _) \<Rightarrow> v)"

definition Has :: "Values \<Rightarrow> string \<Rightarrow> bool" where
  "Has q k = (q k \<noteq> None)"

text \<open>A run-time panic of the Go program: an index out of range (the index and the
  length), \<^verbatim>\<open>make\<close> with a length out of range, the panic of \<^verbatim>\<open>rand.Int64N\<close> on an
  argument that is not positive, and the panic of \<^verbatim>\<open>WriteHeader\<close> on a status code
  outside 100..999.\<close>

datatype panic =
    IndexOutOfRange int nat
  | MakeLenOutOfRange int
  | InvalidArgument
  | InvalidWriteHeaderCode int

text \<open>\<^verbatim>\<open>make\<close> of a slice of \<open>n\<close> elements of \<open>elemSize\<close> bytes: the runtime panics
  (makeslice: len out of range) for a negative \<open>n\<close> and for a slice of more than
  \<^verbatim>\<open>maxAlloc\<close> bytes, which is \<open>2\<^sup>4\<^sup>8\<close> on the 64-bit platforms with 48 bits of heap
  address (linux/amd64 among them). Below that bound, an allocation that the machine has
  no memory for ends the whole process with a fatal error; that depends on the machine
  and not on the program, the model does not decide it, and what is proved of a payload
  is proved of a payload that was allocated.\<close>

definition maxAlloc :: int where
  "maxAlloc = 2 ^ 48"

definition makeOutOfRange :: "int \<Rightarrow> int \<Rightarrow> bool" where
  "makeOutOfRange elemSize n = (n < 0 \<or> maxAlloc < n * elemSize)"

text \<open>The addition of two \<^verbatim>\<open>int\<close>s wraps around in 64 bits.\<close>

definition wrap64 :: "int \<Rightarrow> int" where
  "wrap64 x = (x + 2 ^ 63) mod 2 ^ 64 - 2 ^ 63"

text \<open>Reading and writing a slice at an index, as Go checks them.\<close>

definition at :: "'a list \<Rightarrow> int \<Rightarrow> panic + 'a" where
  "at xs i =
     (if 0 \<le> i \<and> i < int (length xs) then Inr (xs ! nat i)
      else Inl (IndexOutOfRange i (length xs)))"

definition setAt :: "'a list \<Rightarrow> int \<Rightarrow> 'a \<Rightarrow> panic + 'a list" where
  "setAt xs i v =
     (if 0 \<le> i \<and> i < int (length xs) then Inr (xs[nat i := v])
      else Inl (IndexOutOfRange i (length xs)))"

text \<open>\<^verbatim>\<open>math/rand/v2\<close>: \<^verbatim>\<open>Int64N(n)\<close> panics for \<open>n \<le> 0\<close> and otherwise returns a number
  in \<open>[0, n)\<close>; \<^verbatim>\<open>IntN\<close> likewise, and its only call has the positive constant
  \<^verbatim>\<open>len(letterRunes)\<close> as argument. The model reduces a raw sample of the generator.\<close>

definition IntN :: "nat \<Rightarrow> nat \<Rightarrow> nat" where
  "IntN n r = r mod n"

definition Int64N :: "int \<Rightarrow> nat \<Rightarrow> panic + int" where
  "Int64N n r = (if n \<le> 0 then Inl InvalidArgument else Inr (int r mod n))"

text \<open>\<^verbatim>\<open>Duration.Milliseconds\<close>.\<close>

definition Milliseconds :: "duration \<Rightarrow> int" where
  "Milliseconds d = quot d 1000000"

definition Millisecond :: duration where
  "Millisecond = 1000000"

definition Second :: duration where
  "Second = 1000000000"

text \<open>The samples one request takes from the random generators: one for the delay, one
  for each letter of a textual payload, and the bytes that \<^verbatim>\<open>crypto/rand.Read\<close> gives.\<close>

record entropy =
  delaySample :: nat
  letterSamples :: "nat \<Rightarrow> nat"
  cryptoBytes :: "nat \<Rightarrow> char"

section \<open>The behaviour descriptor\<close>

record params =
  id' :: string
  randomDelay :: "duration list"
  delays :: "duration list"
  codes :: "int list"
  cutOffs :: "int list"
  size' :: int
  bytesPerSec :: "int option"
  isBinary :: bool
  sessionCount :: int

text \<open>The zero value \<^verbatim>\<open>params{}\<close>.\<close>

definition zeroParams :: params where
  "zeroParams =
     \<lparr>id' = [], randomDelay = [], delays = [], codes = [], cutOffs = [], size' = 0,
      bytesPerSec = None, isBinary = False, sessionCount = 0\<rparr>"

definition letterRunes :: string where
  "letterRunes =
     ''abcdefghijklmnopqrstuvwxyzABCDEFGHIJKLMNOPQRSTUVWXYZ01234567890 '' @ [CHR 0x0A]"

text \<open>\<^verbatim>\<open>randString\<close> makes a slice of \<open>n\<close> runes, of four bytes each; \<^verbatim>\<open>payload\<close> makes
  a slice of \<open>n\<close> bytes for a binary payload.\<close>

definition randString :: "int \<Rightarrow> (nat \<Rightarrow> nat) \<Rightarrow> panic + string" where
  "randString n rs =
     (if makeOutOfRange 4 n then Inl (MakeLenOutOfRange n)
      else Inr (map (\<lambda>i. letterRunes ! IntN (length letterRunes) (rs i)) [0..<nat n]))"

definition payload :: "params \<Rightarrow> int \<Rightarrow> entropy \<Rightarrow> panic + string" where
  "payload p n ent =
     (if isBinary p then
        (if makeOutOfRange 1 n then Inl (MakeLenOutOfRange n)
         else Inr (map (cryptoBytes ent) [0..<nat n]))
      else randString n (letterSamples ent))"

section \<open>The session registry\<close>

text \<open>The registry is the global map \<^verbatim>\<open>sessions\<close>; a key that is absent reads as 0. The
  update runs under the mutex, so it is one step of the model. The counter is an
  \<^verbatim>\<open>int\<close>: \<^verbatim>\<open>p.sessionCount + 1\<close> wraps around at \<open>2\<^sup>6\<^sup>3 - 1\<close>.\<close>

type_synonym registry = "string \<rightharpoonup> int"

definition counter :: "registry \<Rightarrow> string \<Rightarrow> int" where
  "counter sessions k = (case sessions k of None \<Rightarrow> 0 | Some c \<Rightarrow> c)"

definition updateSession :: "params \<Rightarrow> registry \<Rightarrow> params \<times> registry" where
  "updateSession p sessions =
     (let c = counter sessions (id' p)
      in (p\<lparr>sessionCount := c\<rparr>, sessions(id' p \<mapsto> wrap64 (c + 1))))"

section \<open>The step resolver\<close>

definition delayDuration :: "params \<Rightarrow> entropy \<Rightarrow> panic + duration" where
  "delayDuration p ent =
     (if length (randomDelay p) = 2 then
        (let lo = Milliseconds (randomDelay p ! 0); hi = Milliseconds (randomDelay p ! 1)
         in case Int64N (hi - lo) (delaySample ent) of
              Inl pn \<Rightarrow> Inl pn
            | Inr k \<Rightarrow> Inr ((k + lo) * Millisecond))
      else if length (delays p) > 1 then
        (let idx = (if int (length (delays p)) \<le> sessionCount p
                    then int (length (delays p)) - 1 else sessionCount p)
         in at (delays p) idx)
      else if length (delays p) = 1 then at (delays p) 0
      else Inr 0)"

definition statusCode :: "params \<Rightarrow> panic + int" where
  "statusCode p =
     (if length (codes p) > 0 then
        (if int (length (codes p)) > sessionCount p then at (codes p) (sessionCount p)
         else at (codes p) (int (length (codes p)) - 1))
      else Inr 200)"

definition cutOff :: "params \<Rightarrow> panic + int" where
  "cutOff p =
     (if length (cutOffs p) > 0 then
        (if int (length (cutOffs p)) > sessionCount p then at (cutOffs p) (sessionCount p)
         else at (cutOffs p) (int (length (cutOffs p)) - 1))
      else Inr (- 1))"

section \<open>The parser of the query\<close>

text \<open>The two revisions of the file: the one without the usage text, and the one with it.\<close>

datatype revision = Plain | WithUsage

text \<open>The error that \<^verbatim>\<open>parseParams\<close> returns, one constructor for each message of
  \<^verbatim>\<open>fmt.Errorf\<close> with the string the message quotes: "can't parse duration",
  "can't parse size", "required size parameter is missing", "can't parse bytes per second",
  "can't parse status codes" and "can't parse cutoff-offs".\<close>

datatype perror =
    CantParseDuration string
  | CantParseSize string
  | MissingSize
  | CantParseBytesPerSecond string
  | CantParseStatusCodes string
  | CantParseCutOffs string

datatype fault = Failure perror | Panic panic

definition andThen :: "fault + 'a \<Rightarrow> ('a \<Rightarrow> fault + 'b) \<Rightarrow> fault + 'b" where
  "andThen r f = (case r of Inl e \<Rightarrow> Inl e | Inr x \<Rightarrow> f x)"

text \<open>\<^verbatim>\<open>time.ParseDuration\<close> belongs to Go's library; the parser takes it as the
  parameter \<open>pd\<close>, \<open>None\<close> being its error.\<close>

type_synonym parseDuration = "string \<Rightarrow> duration option"

fun parseDelays :: "parseDuration \<Rightarrow> string list \<Rightarrow> params \<Rightarrow> fault + params" where
  "parseDelays pd [] ps = Inr ps"
| "parseDelays pd (d # ds) ps =
     (case pd d of
        None \<Rightarrow> Inl (Failure (CantParseDuration d))
      | Some delay \<Rightarrow> parseDelays pd ds (ps\<lparr>delays := delays ps @ [delay]\<rparr>))"

definition parseDelay :: "parseDuration \<Rightarrow> Values \<Rightarrow> params \<Rightarrow> fault + params" where
  "parseDelay pd q ps =
     (let sd = Get q ''delay''
      in if sd \<noteq> [] then
           (let randDur = Split sd CHR ''-''
            in if length randDur = 2 then
                 (case pd (randDur ! 0) of
                    None \<Rightarrow> Inl (Failure (CantParseDuration (randDur ! 0)))
                  | Some delay0 \<Rightarrow>
                      (case setAt (randomDelay ps) 0 delay0 of
                         Inl pn \<Rightarrow> Inl (Panic pn)
                       | Inr rd0 \<Rightarrow>
                           (case pd (randDur ! 1) of
                              None \<Rightarrow> Inl (Failure (CantParseDuration (randDur ! 1)))
                            | Some delay1 \<Rightarrow>
                                (case setAt rd0 1 delay1 of
                                   Inl pn \<Rightarrow> Inl (Panic pn)
                                 | Inr rd1 \<Rightarrow> Inr (ps\<lparr>randomDelay := rd1\<rparr>)))))
               else parseDelays pd (Split sd CHR '','') ps)
         else Inr ps)"

definition parseSize :: "Values \<Rightarrow> params \<Rightarrow> fault + params" where
  "parseSize q ps =
     (let ss = Get q ''size''
      in if ss \<noteq> [] then
           (case Atoi ss of
              None \<Rightarrow> Inl (Failure (CantParseSize ss))
            | Some n \<Rightarrow> Inr (ps\<lparr>size' := n\<rparr>))
         else Inl (Failure MissingSize))"

definition parseBps :: "Values \<Rightarrow> params \<Rightarrow> fault + params" where
  "parseBps q ps =
     (let sb = Get q ''bps''
      in if sb \<noteq> [] then
           (case Atoi sb of
              None \<Rightarrow> Inl (Failure (CantParseBytesPerSecond sb))
            | Some bps \<Rightarrow> Inr (ps\<lparr>bytesPerSec := Some bps\<rparr>))
         else Inr ps)"

text \<open>The loop over the pieces of \<^verbatim>\<open>cutOffs\<close>. Revision \<open>Plain\<close> skips a piece that is
  empty after trimming; revision \<open>WithUsage\<close> appends \<open>-1\<close> for it.\<close>

fun cutOffsLoop :: "revision \<Rightarrow> string \<Rightarrow> string list \<Rightarrow> params \<Rightarrow> fault + params" where
  "cutOffsLoop rv v [] ps = Inr ps"
| "cutOffsLoop Plain v (s # ss) ps =
     (let t = TrimSpace s
      in if t \<noteq> [] then
           (case Atoi t of
              None \<Rightarrow> Inl (Failure (CantParseStatusCodes v))
            | Some c \<Rightarrow> cutOffsLoop Plain v ss (ps\<lparr>cutOffs := cutOffs ps @ [c]\<rparr>))
         else cutOffsLoop Plain v ss ps)"
| "cutOffsLoop WithUsage v (s # ss) ps =
     (let t = TrimSpace s
      in if t \<noteq> [] then
           (case Atoi t of
              None \<Rightarrow> Inl (Failure (CantParseCutOffs v))
            | Some c \<Rightarrow> cutOffsLoop WithUsage v ss (ps\<lparr>cutOffs := cutOffs ps @ [c]\<rparr>))
         else cutOffsLoop WithUsage v ss (ps\<lparr>cutOffs := cutOffs ps @ [- 1]\<rparr>))"

definition parseCutOffs :: "revision \<Rightarrow> Values \<Rightarrow> params \<Rightarrow> fault + params" where
  "parseCutOffs rv q ps =
     (let v = Get q ''cutOffs''
      in case rv of
           Plain \<Rightarrow> cutOffsLoop Plain v (Split v CHR '','') ps
         | WithUsage \<Rightarrow>
             (if v \<noteq> [] then cutOffsLoop WithUsage v (Split v CHR '','') ps else Inr ps))"

fun codesLoop :: "string \<Rightarrow> string list \<Rightarrow> params \<Rightarrow> fault + params" where
  "codesLoop v [] ps = Inr ps"
| "codesLoop v (s # ss) ps =
     (let t = TrimSpace s
      in if t \<noteq> [] then
           (case Atoi t of
              None \<Rightarrow> Inl (Failure (CantParseStatusCodes v))
            | Some c \<Rightarrow> codesLoop v ss (ps\<lparr>codes := codes ps @ [c]\<rparr>))
         else codesLoop v ss ps)"

definition parseCodes :: "Values \<Rightarrow> params \<Rightarrow> fault + params" where
  "parseCodes q ps =
     (let v = Get q ''codes''
      in if v \<noteq> [] then codesLoop v (Split v CHR '','') ps else Inr ps)"

definition parseParams :: "revision \<Rightarrow> parseDuration \<Rightarrow> Values \<Rightarrow> fault + params" where
  "parseParams rv pd q =
     andThen (parseDelay pd q zeroParams) (\<lambda>ps.
     andThen (parseSize q ps) (\<lambda>ps.
     andThen (parseBps q ps) (\<lambda>ps.
     andThen (parseCutOffs rv q ps) (\<lambda>ps.
     andThen (parseCodes q ps) (\<lambda>ps.
       Inr (ps\<lparr>isBinary := Has q ''bin'', id' := Get q ''id''\<rparr>))))))"

section \<open>The handler\<close>

text \<open>What the handler does to its environment, in order: a sleep, a call of
  \<^verbatim>\<open>http.Error\<close> that returns (the body and the status; \<^verbatim>\<open>http.Error\<close> calls
  \<^verbatim>\<open>WriteHeader\<close>, which panics on a status outside 100..999 before anything is
  written), \<^verbatim>\<open>w.WriteHeader\<close>, \<^verbatim>\<open>w.Header().Add\<close>,
  \<^verbatim>\<open>w.Write\<close> with the bytes, \<^verbatim>\<open>flusher.Flush\<close>, and the hijack of the connection
  followed by its close. The body of a 400 response is the parse error, followed by the
  usage text in revision \<open>WithUsage\<close>.\<close>

datatype body = Text string | ParseFailure perror bool | StatusText int

datatype event =
    Sleep duration
  | HttpError body int
  | WriteHeader int
  | HeaderAdd string string
  | Write string
  | Flush
  | HijackClose

text \<open>How a call of the handler ends: it returns, it panics, or its loop runs forever.\<close>

datatype ending = Returned | Panicked panic | Diverged

definition delay :: "params \<Rightarrow> entropy \<Rightarrow> panic + event list" where
  "delay p ent =
     (case delayDuration p ent of
        Inl pn \<Rightarrow> Inl pn
      | Inr dur \<Rightarrow> Inr (if dur > 0 then [Sleep dur] else []))"

text \<open>The loop \<^verbatim>\<open>for toSend > 0\<close> of the handler; \<open>tr\<close> is what the handler has done so
  far. The loop need not end, so the result is an option.\<close>

partial_function (option) deliver ::
  "string \<Rightarrow> int \<Rightarrow> int \<Rightarrow> event list \<Rightarrow> event list option" where
  "deliver data toSend cutoff tr =
     (if toSend > 0 then
        (let size0 = int (length data);
             size1 = (if toSend < size0 then toSend else size0);
             size2 = (if cutoff \<ge> 0 \<and> cutoff < size1 then cutoff else size1);
             cutoff' = (if cutoff \<ge> 0 then cutoff - size2 else cutoff);
             tr1 = tr @ [Write (take (nat size2) data)];
             toSend' = toSend - size2
         in if toSend' > 0 then
              (if cutoff' = 0 then Some (tr1 @ [Flush, HijackClose])
               else deliver data toSend' cutoff' (tr1 @ [Flush, Sleep Second]))
            else deliver data toSend' cutoff' tr1)
      else Some tr)"

declare deliver.simps [code]

text \<open>The handler from \<^verbatim>\<open>w.WriteHeader(code)\<close> on; \<open>tr\<close> is what it did before.
  When the loop never ends, the result keeps what was done before the loop.\<close>

definition stream :: "entropy \<Rightarrow> params \<Rightarrow> int \<Rightarrow> event list \<Rightarrow> event list \<times> ending" where
  "stream ent p code tr =
     (let tr1 = tr @
            [WriteHeader code,
             HeaderAdd ''Content-Type''
               (if isBinary p then ''application/octet-stream''
                else ''text/plain; charset=us-ascii''),
             HeaderAdd ''Content-Length'' (Itoa (size' p))];
          toSend = size' p;
          chunkSize = (case bytesPerSec p of None \<Rightarrow> size' p | Some bps \<Rightarrow> bps)
      in case payload p chunkSize ent of
           Inl pn \<Rightarrow> (tr1, Panicked pn)
         | Inr data \<Rightarrow>
             (case cutOff p of
                Inl pn \<Rightarrow> (tr1, Panicked pn)
              | Inr cutoff \<Rightarrow>
                  (case deliver data toSend cutoff tr1 of
                     None \<Rightarrow> (tr1, Diverged)
                   | Some tr2 \<Rightarrow> (tr2, Returned))))"

text \<open>The handler. \<open>flusherOk\<close> and \<open>hijackerOk\<close> say whether the response writer is an
  \<^verbatim>\<open>http.Flusher\<close> and an \<^verbatim>\<open>http.Hijacker\<close>. The result is the registry after the call,
  what the handler did, and how it ended.\<close>

definition handler ::
  "revision \<Rightarrow> parseDuration \<Rightarrow> bool \<Rightarrow> bool \<Rightarrow> entropy \<Rightarrow> Values \<Rightarrow> registry
     \<Rightarrow> registry \<times> event list \<times> ending" where
  "handler rv pd flusherOk hijackerOk ent q sessions =
     (if \<not> flusherOk then
        (sessions,
         [HttpError (Text ''Streaming not supported by this connection'') 500], Returned)
      else if \<not> hijackerOk then
        (sessions,
         [HttpError (Text ''Hijacking not supported by this connection'') 500], Returned)
      else
        (case parseParams rv pd q of
           Inl (Panic pn) \<Rightarrow> (sessions, [], Panicked pn)
         | Inl (Failure e) \<Rightarrow>
             (sessions, [HttpError (ParseFailure e (rv = WithUsage)) 400], Returned)
         | Inr p0 \<Rightarrow>
             (let (p, sessions') = updateSession p0 sessions
              in case delay p ent of
                   Inl pn \<Rightarrow> (sessions', [], Panicked pn)
                 | Inr slept \<Rightarrow>
                     (case statusCode p of
                        Inl pn \<Rightarrow> (sessions', slept, Panicked pn)
                      | Inr code \<Rightarrow>
                          if quot code 100 \<noteq> 2 then
                            (if code < 100 \<or> 999 < code then
                               (sessions', slept, Panicked (InvalidWriteHeaderCode code))
                             else
                               (sessions', slept @ [HttpError (StatusText code) code],
                                Returned))
                          else
                            (let (tr, e) = stream ent p code slept
                             in (sessions', tr, e))))))"

section \<open>Observations on what the handler did\<close>

text \<open>The number of payload bytes written, the sizes of the writes one by one, and the
  number of one-second sleeps.\<close>

fun written :: "event list \<Rightarrow> nat" where
  "written [] = 0"
| "written (Write d # es) = length d + written es"
| "written (e # es) = written es"

fun writeSizes :: "event list \<Rightarrow> nat list" where
  "writeSizes [] = []"
| "writeSizes (Write d # es) = length d # writeSizes es"
| "writeSizes (e # es) = writeSizes es"

definition secondSleeps :: "event list \<Rightarrow> nat" where
  "secondSleeps es = count_list es (Sleep Second)"

text \<open>The shape of a paced delivery: \<open>k\<close> whole chunks, each flushed and followed by a
  sleep of one second, then a last write of the first \<open>r\<close> bytes.\<close>

fun pacedTrace :: "string \<Rightarrow> nat \<Rightarrow> nat \<Rightarrow> event list" where
  "pacedTrace data r 0 = [Write (take r data)]"
| "pacedTrace data r (Suc k) = [Write data, Flush, Sleep (Second)] @ pacedTrace data r k"

text \<open>The sleeps of a delivery come between consecutive writes: the trace is a write, or a
  write, a flush and a sleep of one second followed by such a trace. It ends with a
  write, and no two writes follow each other without a sleep between them.\<close>

fun sleepsBetweenWrites :: "event list \<Rightarrow> bool" where
  "sleepsBetweenWrites [Write d] = True"
| "sleepsBetweenWrites (Write d # Flush # Sleep s # es) = (s = Second \<and> sleepsBetweenWrites es)"
| "sleepsBetweenWrites es = False"

text \<open>The entries of the handler's header map that go out with the status line. A
  \<^verbatim>\<open>http.ResponseWriter\<close> sends the header map as it is at the call of
  \<^verbatim>\<open>WriteHeader\<close> (the first \<^verbatim>\<open>Write\<close> calls it if nobody did); the documentation of
  \<^verbatim>\<open>net/http\<close> says that changing the header map after a call to \<^verbatim>\<open>WriteHeader\<close>
  (or \<^verbatim>\<open>Write\<close>) has no effect, unless the status is of the 1xx class or the headers
  are trailers. So the header sent holds the additions made before the first
  \<^verbatim>\<open>WriteHeader\<close> or \<^verbatim>\<open>Write\<close>; what \<^verbatim>\<open>net/http\<close> adds of its own (the date, a
  sniffed content type, the framing) is not part of the model.\<close>

fun sentHeader :: "event list \<Rightarrow> (string \<times> string) list" where
  "sentHeader [] = []"
| "sentHeader (HeaderAdd k v # es) = (k, v) # sentHeader es"
| "sentHeader (WriteHeader c # es) = []"
| "sentHeader (Write d # es) = []"
| "sentHeader (e # es) = sentHeader es"

text \<open>The status codes that \<open>n\<close> requests in a row resolve, all with the descriptor
  \<open>p\<close>: each one updates the session and then resolves its status.\<close>

fun sequentialStatuses :: "nat \<Rightarrow> params \<Rightarrow> registry \<Rightarrow> (panic + int) list" where
  "sequentialStatuses 0 p sessions = []"
| "sequentialStatuses (Suc n) p sessions =
     (let (p', sessions') = updateSession p sessions
      in statusCode p' # sequentialStatuses n p sessions')"

section \<open>The specification's notions\<close>

text \<open>The alphabet the specification gives for a textual payload: a to z, A to Z, 0 to 9,
  the space and the newline.\<close>

definition alphabet :: string where
  "alphabet =
     ''abcdefghijklmnopqrstuvwxyz'' @ ''ABCDEFGHIJKLMNOPQRSTUVWXYZ'' @ ''0123456789'' @
     [CHR 0x20, CHR 0x0A]"

text \<open>The cutoff of step \<open>n\<close> as the specification reads a \<^verbatim>\<open>cutOffs\<close> value: the value
  is split at the commas, the piece of the step (the last one beyond the end) stands for
  no truncation when it is empty, and for its decimal number otherwise.\<close>

definition specCutOff :: "string \<Rightarrow> nat \<Rightarrow> int option" where
  "specCutOff v n =
     (let toks = Split v CHR '','';
          t = TrimSpace (toks ! min n (length toks - 1))
      in if t = [] then Some (- 1) else Atoi t)"

text \<open>A malformed query, in the specification's words: the size is missing, or a token of
  size, bps, delay, cutOffs or codes cannot be parsed.\<close>

definition badInts :: "string \<Rightarrow> bool" where
  "badInts v = (\<exists>t \<in> set (Split v CHR '',''). TrimSpace t \<noteq> [] \<and> Atoi (TrimSpace t) = None)"

definition badDelay :: "parseDuration \<Rightarrow> string \<Rightarrow> bool" where
  "badDelay pd sd =
     (sd \<noteq> [] \<and>
      (if length (Split sd CHR ''-'') = 2 then \<exists>t \<in> set (Split sd CHR ''-''). pd t = None
       else \<exists>t \<in> set (Split sd CHR '',''). pd t = None))"

definition malformed :: "parseDuration \<Rightarrow> Values \<Rightarrow> bool" where
  "malformed pd q =
     (Get q ''size'' = [] \<or> Atoi (Get q ''size'') = None \<or>
      (Get q ''bps'' \<noteq> [] \<and> Atoi (Get q ''bps'') = None) \<or>
      badDelay pd (Get q ''delay'') \<or>
      badInts (Get q ''cutOffs'') \<or> badInts (Get q ''codes''))"

text \<open>A delay value made of two pieces around one \<open>-\<close>, the first of which is a
  duration: the range form of the delay, as far as the parser looks at it before it
  stores the first bound.\<close>

definition rangeStart :: "parseDuration \<Rightarrow> Values \<Rightarrow> bool" where
  "rangeStart pd q =
     (length (Split (Get q ''delay'') CHR ''-'') = 2 \<and>
      pd (Split (Get q ''delay'') CHR ''-'' ! 0) \<noteq> None)"

text \<open>What a parse error names: the token or the value of the parameter that could not be
  parsed. Revision \<open>Plain\<close> reports a bad \<^verbatim>\<open>cutOffs\<close> value under the message of the
  status codes.\<close>

fun names :: "revision \<Rightarrow> parseDuration \<Rightarrow> Values \<Rightarrow> perror \<Rightarrow> bool" where
  "names rv pd q (CantParseDuration t) =
     (pd t = None \<and>
      (t \<in> set (Split (Get q ''delay'') CHR ''-'') \<or>
       t \<in> set (Split (Get q ''delay'') CHR '','')))"
| "names rv pd q (CantParseSize s) = (s = Get q ''size'' \<and> s \<noteq> [] \<and> Atoi s = None)"
| "names rv pd q MissingSize = (Get q ''size'' = [])"
| "names rv pd q (CantParseBytesPerSecond s) =
     (s = Get q ''bps'' \<and> s \<noteq> [] \<and> Atoi s = None)"
| "names rv pd q (CantParseCutOffs v) =
     (rv = WithUsage \<and> v = Get q ''cutOffs'' \<and> badInts v)"
| "names rv pd q (CantParseStatusCodes v) =
     ((v = Get q ''codes'' \<and> badInts v) \<or>
      (rv = Plain \<and> v = Get q ''cutOffs'' \<and> badInts v))"

section \<open>Sample inputs\<close>

text \<open>\<^verbatim>\<open>time.ParseDuration\<close> at the tokens of the examples: it gives these values at
  \<^verbatim>\<open>0ms\<close>, \<^verbatim>\<open>1ms\<close>, \<^verbatim>\<open>0s\<close>, \<^verbatim>\<open>1s\<close> and \<^verbatim>\<open>2s\<close>, and an error at the empty string
  and at \<^verbatim>\<open>soon\<close>. The examples apply it to no other string.\<close>

definition sampleDurations :: parseDuration where
  "sampleDurations s =
     (if s = ''0ms'' \<or> s = ''0s'' then Some 0
      else if s = ''1ms'' then Some Millisecond
      else if s = ''1s'' then Some Second
      else if s = ''2s'' then Some (2 * Second)
      else None)"

definition sampleEntropy :: entropy where
  "sampleEntropy =
     \<lparr>delaySample = 7, letterSamples = (\<lambda>i. 3 * i + 52), cryptoBytes = (\<lambda>i. char_of i)\<rparr>"

section \<open>The delivery loop\<close>

lemma deliver_done: "toSend \<le> 0 \<Longrightarrow> deliver data toSend c tr = Some tr"
  by (subst deliver.simps) simp

text \<open>With a truncation limit and a buffer that is not empty, the loop ends: it writes
  the smaller of the size and the limit, and closes the connection exactly when the limit
  is the smaller one.\<close>

lemma deliver_cut:
  assumes "0 < length data"
  shows "0 < n \<Longrightarrow> 0 \<le> c \<Longrightarrow>
    \<exists>tr'. deliver data n c tr = Some (tr @ tr') \<and> int (written tr') = min n c \<and>
          (HijackClose \<in> set tr' \<longleftrightarrow> c < n) \<and>
          (c = 0 \<longrightarrow> tr' = [Write [], Flush, HijackClose])"
proof (induction "nat n" arbitrary: n c tr rule: less_induct)
  case less
  let ?b = "int (length data)"
  let ?s1 = "if n < ?b then n else ?b"
  let ?s2 = "if c < ?s1 then c else ?s1"
  have s1: "0 < ?s1" using less.prems assms by simp
  have s2: "0 \<le> ?s2" "?s2 \<le> ?b" "?s2 \<le> n" "?s2 \<le> c" using less.prems assms by auto
  have len: "length (take (nat ?s2) data) = nat ?s2" using s2 by simp
  show ?case
  proof (cases "c = 0")
    case True
    then show ?thesis using less.prems s1
      by (subst deliver.simps) (simp add: Let_def)
  next
    case cpos: False
    then have s2pos: "0 < ?s2" using s1 less.prems by simp
    show ?thesis
    proof (cases "n - ?s2 > 0")
      case False
      then have eq: "?s2 = n" using s2 by simp
      have "deliver data n c tr = Some (tr @ [Write (take (nat ?s2) data)])"
        using less.prems False
        by (subst deliver.simps) (simp add: Let_def deliver_done)
      moreover have "n \<le> c" using eq s2 by simp
      ultimately show ?thesis using len eq cpos less.prems by auto
    next
      case more: True
      show ?thesis
      proof (cases "c - ?s2 = 0")
        case True
        have "deliver data n c tr =
                Some (tr @ [Write (take (nat ?s2) data), Flush, HijackClose])"
          using less.prems more True
          by (subst deliver.simps) (simp add: Let_def)
        moreover have "c < n" "?s2 = c" using True more by auto
        ultimately show ?thesis using len cpos less.prems by auto
      next
        case False
        let ?n' = "n - ?s2" and ?c' = "c - ?s2"
        let ?tr1 = "tr @ [Write (take (nat ?s2) data), Flush, Sleep Second]"
        have step: "deliver data n c tr = deliver data ?n' ?c' ?tr1"
          using less.prems more False
          by (subst deliver.simps) (simp add: Let_def)
        have "nat ?n' < nat n" using s2pos more by simp
        moreover have "0 < ?n'" "0 \<le> ?c'" using more s2 by auto
        ultimately obtain tr' where
          tr': "deliver data ?n' ?c' ?tr1 = Some (?tr1 @ tr')"
               "int (written tr') = min ?n' ?c'"
               "HijackClose \<in> set tr' \<longleftrightarrow> ?c' < ?n'"
          using less.hyps[of ?n' ?c' ?tr1] by blast
        let ?r = "[Write (take (nat ?s2) data), Flush, Sleep Second] @ tr'"
        have "deliver data n c tr = Some (tr @ ?r)" using step tr'(1) by simp
        moreover have "int (written ?r) = min n c" using tr'(2) len s2 by auto
        moreover have "HijackClose \<in> set ?r \<longleftrightarrow> c < n" using tr'(3) by auto
        ultimately show ?thesis using cpos by blast
      qed
    qed
  qed
qed

text \<open>With an empty buffer and a limit other than 0 the loop writes nothing and never
  ends.\<close>

lemma deliver_stuck_aux:
  assumes some: "deliver data0 n0 c0 tr0 = Some y0"
  shows "\<not> (data0 = [] \<and> 0 < n0 \<and> c0 \<noteq> 0)"
proof (rule deliver.raw_induct
    [where P = "\<lambda>data n c tr y. \<not> (data = [] \<and> 0 < n \<and> c \<noteq> 0)", OF _ some])
  fix f :: "string \<Rightarrow> int \<Rightarrow> int \<Rightarrow> event list \<Rightarrow> event list option"
    and data n c tr y
  assume ih: "\<And>d m k t z. f d m k t = Some z \<Longrightarrow> \<not> (d = [] \<and> 0 < m \<and> k \<noteq> 0)"
  let ?body = "if 0 < n
      then let size0 = int (length data);
               size1 = if n < size0 then n else size0;
               size2 = if 0 \<le> c \<and> c < size1 then c else size1;
               cutoff' = if 0 \<le> c then c - size2 else c;
               tr1 = tr @ [Write (take (nat size2) data)]; toSend' = n - size2
           in if 0 < toSend'
              then if cutoff' = 0 then Some (tr1 @ [Flush, HijackClose])
                   else f data toSend' cutoff' (tr1 @ [Flush, Sleep Second])
              else f data toSend' cutoff' tr1
      else Some tr"
  assume eq: "?body = Some y"
  show "\<not> (data = [] \<and> 0 < n \<and> c \<noteq> 0)"
  proof
    assume a: "data = [] \<and> 0 < n \<and> c \<noteq> 0"
    with eq have "f [] n c (tr @ [Write [], Flush, Sleep Second]) = Some y"
      by (simp add: Let_def split: if_splits)
    from ih[OF this] a show False by simp
  qed
qed

lemma deliver_stuck: "0 < n \<Longrightarrow> c \<noteq> 0 \<Longrightarrow> deliver [] n c tr = None"
  using deliver_stuck_aux[of "[]" n c tr] by (cases "deliver [] n c tr") auto

text \<open>Without a truncation limit the loop writes whole buffers, with a flush and a sleep
  of one second after each, and then the rest.\<close>

lemma deliver_paced:
  assumes "0 < length data" and "c < 0"
  shows "0 < m \<Longrightarrow>
    deliver data (int m) c tr =
      Some (tr @ pacedTrace data (m - ((m - 1) div length data) * length data)
                    ((m - 1) div length data))"
proof (induction m arbitrary: tr rule: less_induct)
  case (less m)
  let ?b = "length data"
  show ?case
  proof (cases "m \<le> ?b")
    case True
    then have "(m - 1) div ?b = 0" using less.prems by simp
    moreover have "deliver data (int m) c tr = Some (tr @ [Write (take m data)])"
      using less.prems True assms
      by (subst deliver.simps) (auto simp add: Let_def deliver_done)
    ultimately show ?thesis by simp
  next
    case False
    let ?m' = "m - ?b"
    let ?tr1 = "tr @ [Write data, Flush, Sleep Second]"
    have "int m - int ?b = int ?m'" using False by simp
    then have step: "deliver data (int m) c tr = deliver data (int ?m') c ?tr1"
      using less.prems False assms
      by (subst deliver.simps) (simp add: Let_def)
    have "?m' < m" "0 < ?m'" using False assms by auto
    from less.IH[OF this, of ?tr1]
    have ih: "deliver data (int ?m') c ?tr1 =
      Some (?tr1 @ pacedTrace data (?m' - ((?m' - 1) div ?b) * ?b) ((?m' - 1) div ?b))" .
    have "m - 1 = (?m' - 1) + ?b" using False by simp
    then have k: "(m - 1) div ?b = Suc ((?m' - 1) div ?b)"
      using assms by (metis Suc_eq_plus1 div_add_self2 less_numeral_extra(3))
    have r: "m - (Suc ((?m' - 1) div ?b)) * ?b = ?m' - ((?m' - 1) div ?b) * ?b"
      by simp
    show ?thesis unfolding step ih k r by simp
  qed
qed

lemma pacedTrace_writes: "length (writeSizes (pacedTrace data r k)) = Suc k"
  by (induction k) auto

lemma pacedTrace_sleeps: "secondSleeps (pacedTrace data r k) = k"
  by (induction k) (auto simp: secondSleeps_def)

lemma pacedTrace_sizes: "w \<in> set (writeSizes (pacedTrace data r k)) \<Longrightarrow> w \<le> length data"
  by (induction k) auto

lemma pacedTrace_written:
  "r \<le> length data \<Longrightarrow> written (pacedTrace data r k) = k * length data + r"
  by (induction k) auto

lemma pacedTrace_noClose: "HijackClose \<notin> set (pacedTrace data r k)"
  by (induction k) auto

lemma pacedTrace_between: "sleepsBetweenWrites (pacedTrace data r k)"
  by (induction k) auto

text \<open>A payload that is allocated has the length asked for; it is allocated for a
  length that \<^verbatim>\<open>make\<close> accepts, and the handler panics otherwise.\<close>

lemma payload_Inr: "payload p n ent = Inr data \<Longrightarrow> 0 \<le> n \<and> length data = nat n"
  by (auto simp: payload_def randString_def makeOutOfRange_def split: if_splits)

lemma payload_allocated:
  "0 \<le> n \<Longrightarrow> n * 4 \<le> maxAlloc \<Longrightarrow> \<exists>data. payload p n ent = Inr data"
  by (auto simp: payload_def randString_def makeOutOfRange_def)

lemma payload_refused:
  "n < 0 \<or> maxAlloc < n \<Longrightarrow> payload p n ent = Inl (MakeLenOutOfRange n)"
  by (auto simp: payload_def randString_def makeOutOfRange_def)

lemma wrap64_id: "- (2 ^ 63) \<le> x \<Longrightarrow> x < 2 ^ 63 \<Longrightarrow> wrap64 x = x"
  by (simp add: wrap64_def)

lemma quot_100: "quot c 100 = 2 \<longleftrightarrow> 200 \<le> c \<and> c \<le> 299"
proof (cases "0 < c")
  case True
  then have "quot c 100 = c div 100" by (simp add: quot_def)
  then show ?thesis by presburger
next
  case False
  then have "quot c 100 \<le> 0" by (auto simp: quot_def sgn_if)
  then show ?thesis using False by simp
qed

lemma ceil_nat:
  "0 < m \<Longrightarrow> 0 < bn \<Longrightarrow> nat ((int m + int bn - 1) div int bn) = Suc ((m - 1) div bn)"
proof -
  assume a: "0 < m" "0 < bn"
  then have "int m + int bn - 1 = int ((m - 1) + bn)" by simp
  then have "(int m + int bn - 1) div int bn = int (((m - 1) + bn) div bn)"
    by (simp only: zdiv_int)
  moreover have "((m - 1) + bn) div bn = Suc ((m - 1) div bn)"
    using a(2) div_add_self2[of bn "m - 1"] by simp
  ultimately show ?thesis by simp
qed

lemma last_chunk:
  assumes "0 < m" and "0 < bn"
  shows "m - ((m - 1) div bn) * bn \<le> bn" and "0 < m - ((m - 1) div bn) * bn"
    and "((m - 1) div bn) * bn + (m - ((m - 1) div bn) * bn) = (m::nat)"
proof -
  have le: "((m - 1) div bn) * bn \<le> m - 1" by simp
  have lt: "m - 1 < bn + ((m - 1) div bn) * bn"
    using assms(2) by (rule dividend_less_div_times)
  show "m - ((m - 1) div bn) * bn \<le> bn" using lt by linarith
  show "0 < m - ((m - 1) div bn) * bn" using le assms(1) by linarith
  show "((m - 1) div bn) * bn + (m - ((m - 1) div bn) * bn) = m" using le by linarith
qed

section \<open>Evaluation of the model on given inputs\<close>

lemmas parse_eval =
  parseParams_def andThen_def parseDelay_def parseSize_def parseBps_def parseCutOffs_def
  parseCodes_def Get_def Has_def Atoi_def digitVal_def TrimSpace_def zeroParams_def
  trimLeft.simps trimRight.simps spaceRunes_def suffix_to_prefix Let_def

lemmas resolve_eval =
  updateSession_def wrap64_def counter_def delay_def delayDuration_def statusCode_def
  cutOff_def at_def quot_def

section \<open>The outcomes of the parser\<close>

lemma TrimSpace_Nil: "TrimSpace [] = []"
  by (simp add: TrimSpace_def trimLeft.simps trimRight.simps spaceRunes_def)

lemma Split_Nil: "Split [] c = [[]]"
  by simp

lemma digitVal_range: "digitVal c = Some d \<Longrightarrow> 0 \<le> d \<and> d \<le> 9"
  by (auto simp: digitVal_def split: if_splits)

lemma digitsVal_nonneg: "digitsVal ds n = Some m \<Longrightarrow> 0 \<le> n \<Longrightarrow> 0 \<le> m"
proof (induction ds arbitrary: n)
  case Nil
  then show ?case by simp
next
  case (Cons c cs)
  then obtain d where d: "digitVal c = Some d" "digitsVal cs (n * 10 + d) = Some m"
    by (auto split: option.splits)
  then have "0 \<le> n * 10 + d" using Cons.prems(2) digitVal_range[OF d(1)] by simp
  then show ?case using Cons.IH[OF d(2)] by simp
qed

lemma Atoi_range: "Atoi s = Some v \<Longrightarrow> - (2 ^ 63) \<le> v \<and> v < 2 ^ 63"
  by (auto simp: Atoi_def Let_def split: list.splits option.splits if_splits)

lemma Atoi_sign:
  assumes "Atoi s = Some v" and "hd s \<noteq> CHR ''-''"
  shows "0 \<le> v"
proof -
  obtain c cs where s: "s = c # cs" using assms(1) by (cases s) (auto simp: Atoi_def)
  let ?ds = "if c = CHR ''-'' \<or> c = CHR ''+'' then cs else s"
  have "c \<noteq> CHR ''-''" using assms(2) s by simp
  then have "digitsVal ?ds 0 = Some v"
    using assms(1) s
    by (simp add: Atoi_def Let_def del: digitsVal.simps split: option.splits if_splits)
  then show ?thesis by (rule digitsVal_nonneg) simp
qed

lemma Atoi_nonempty: "Atoi s = Some v \<Longrightarrow> s \<noteq> []"
  by (auto simp: Atoi_def)

subsection \<open>The blocks of the parser\<close>

lemma parseDelays_Inr:
  "parseDelays pd toks ps = Inr ps' \<Longrightarrow>
     (\<exists>ds. ps' = ps\<lparr>delays := delays ps @ ds\<rparr>) \<and> (\<forall>t \<in> set toks. pd t \<noteq> None)"
proof (induction toks arbitrary: ps)
  case Nil
  then have "ps' = ps\<lparr>delays := delays ps @ []\<rparr>" by simp
  then have "\<exists>ds. ps' = ps\<lparr>delays := delays ps @ ds\<rparr>" by (rule exI)
  then show ?case by simp
next
  case (Cons t ts)
  then obtain d where d: "pd t = Some d"
      "parseDelays pd ts (ps\<lparr>delays := delays ps @ [d]\<rparr>) = Inr ps'"
    by (auto split: option.splits)
  from Cons.IH[OF d(2)] obtain ds where
    "ps' = ps\<lparr>delays := delays ps @ d # ds\<rparr>" and ok: "\<forall>t \<in> set ts. pd t \<noteq> None"
    by auto
  then show ?case using d(1) by auto
qed

lemma parseDelays_Inl:
  "parseDelays pd toks ps = Inl f \<Longrightarrow>
     \<exists>t \<in> set toks. pd t = None \<and> f = Failure (CantParseDuration t)"
  by (induction toks arbitrary: ps) (auto split: option.splits)

lemma parseDelay_Inr:
  assumes "parseDelay pd q zeroParams = Inr ps'"
  shows "(\<exists>ds. ps' = zeroParams\<lparr>delays := ds\<rparr>) \<and> \<not> rangeStart pd q \<and>
         \<not> badDelay pd (Get q ''delay'')"
proof (cases "Get q ''delay'' = []")
  case True
  then show ?thesis using assms
    by (auto simp: parseDelay_def rangeStart_def badDelay_def zeroParams_def)
next
  case False
  show ?thesis
  proof (cases "length (Split (Get q ''delay'') CHR ''-'') = 2")
    case True
    then show ?thesis using assms False
      by (auto simp: parseDelay_def setAt_def zeroParams_def Let_def split: option.splits)
  next
    case two: False
    then have "parseDelays pd (Split (Get q ''delay'') CHR '','') zeroParams = Inr ps'"
      using assms False by (simp add: parseDelay_def Let_def)
    from parseDelays_Inr[OF this] two show ?thesis
      by (auto simp: rangeStart_def badDelay_def zeroParams_def)
  qed
qed

lemma parseDelay_Failure:
  assumes "parseDelay pd q zeroParams = Inl (Failure e)"
  shows "\<not> rangeStart pd q \<and> badDelay pd (Get q ''delay'') \<and> names rv pd q e"
proof -
  have ne: "Get q ''delay'' \<noteq> []" using assms by (auto simp: parseDelay_def)
  show ?thesis
  proof (cases "length (Split (Get q ''delay'') CHR ''-'') = 2")
    case True
    then have none: "pd (Split (Get q ''delay'') CHR ''-'' ! 0) = None"
      and e: "e = CantParseDuration (Split (Get q ''delay'') CHR ''-'' ! 0)"
      using assms ne
      by (auto simp: parseDelay_def setAt_def zeroParams_def Let_def split: option.splits)
    have "Split (Get q ''delay'') CHR ''-'' ! 0 \<in> set (Split (Get q ''delay'') CHR ''-'')"
      using True by (intro nth_mem) simp
    then show ?thesis using True none e ne
      by (auto simp: rangeStart_def badDelay_def)
  next
    case two: False
    then have "parseDelays pd (Split (Get q ''delay'') CHR '','') zeroParams = Inl (Failure e)"
      using assms ne by (simp add: parseDelay_def Let_def)
    from parseDelays_Inl[OF this] two ne show ?thesis
      by (auto simp: rangeStart_def badDelay_def)
  qed
qed

lemma parseDelay_Panic:
  assumes "parseDelay pd q zeroParams = Inl (Panic pn)"
  shows "rangeStart pd q \<and> pn = IndexOutOfRange 0 0"
proof -
  have ne: "Get q ''delay'' \<noteq> []" using assms by (auto simp: parseDelay_def)
  show ?thesis
  proof (cases "length (Split (Get q ''delay'') CHR ''-'') = 2")
    case True
    then show ?thesis using assms ne
      by (auto simp: parseDelay_def setAt_def zeroParams_def Let_def rangeStart_def
          split: option.splits)
  next
    case two: False
    then have "parseDelays pd (Split (Get q ''delay'') CHR '','') zeroParams = Inl (Panic pn)"
      using assms ne by (simp add: parseDelay_def Let_def)
    from parseDelays_Inl[OF this] show ?thesis by auto
  qed
qed

lemma parseSize_Inr:
  "parseSize q ps = Inr ps' \<Longrightarrow>
     (\<exists>n. Atoi (Get q ''size'') = Some n \<and> ps' = ps\<lparr>size' := n\<rparr>) \<and> Get q ''size'' \<noteq> []"
  by (auto simp: parseSize_def Let_def split: option.splits if_splits)

lemma parseSize_Inl:
  "parseSize q ps = Inl f \<Longrightarrow>
     \<exists>e. f = Failure e \<and> names rv pd q e \<and>
         (Get q ''size'' = [] \<or> Atoi (Get q ''size'') = None)"
  by (auto simp: parseSize_def Let_def split: option.splits if_splits)

lemma parseBps_Inr:
  "parseBps q ps = Inr ps' \<Longrightarrow>
     (\<exists>bo. ps' = ps\<lparr>bytesPerSec := bo\<rparr>) \<and>
     \<not> (Get q ''bps'' \<noteq> [] \<and> Atoi (Get q ''bps'') = None)"
proof -
  assume a: "parseBps q ps = Inr ps'"
  show ?thesis
  proof (cases "Get q ''bps'' = []")
    case True
    then have "ps' = ps\<lparr>bytesPerSec := bytesPerSec ps\<rparr>" using a by (simp add: parseBps_def)
    then have "\<exists>bo. ps' = ps\<lparr>bytesPerSec := bo\<rparr>" by (rule exI)
    then show ?thesis using True by simp
  next
    case False
    then show ?thesis using a by (auto simp: parseBps_def Let_def split: option.splits)
  qed
qed

lemma parseBps_Inl:
  "parseBps q ps = Inl f \<Longrightarrow>
     \<exists>e. f = Failure e \<and> names rv pd q e \<and>
         Get q ''bps'' \<noteq> [] \<and> Atoi (Get q ''bps'') = None"
  by (auto simp: parseBps_def Let_def split: option.splits if_splits)

lemma cutOffsLoop_WithUsage_Inr:
  "cutOffsLoop WithUsage v toks ps = Inr ps' \<Longrightarrow>
     ps' = ps\<lparr>cutOffs := cutOffs ps @
             map (\<lambda>t. if TrimSpace t = [] then - 1 else the (Atoi (TrimSpace t))) toks\<rparr> \<and>
     \<not> (\<exists>t \<in> set toks. TrimSpace t \<noteq> [] \<and> Atoi (TrimSpace t) = None)"
proof (induction toks arbitrary: ps)
  case Nil
  then show ?case by simp
next
  case (Cons t ts)
  show ?case
  proof (cases "TrimSpace t = []")
    case True
    then have "cutOffsLoop WithUsage v ts (ps\<lparr>cutOffs := cutOffs ps @ [- 1]\<rparr>) = Inr ps'"
      using Cons.prems by simp
    from Cons.IH[OF this] True show ?thesis by simp
  next
    case False
    then obtain c where c: "Atoi (TrimSpace t) = Some c"
        "cutOffsLoop WithUsage v ts (ps\<lparr>cutOffs := cutOffs ps @ [c]\<rparr>) = Inr ps'"
      using Cons.prems by (auto simp: Let_def split: option.splits)
    from Cons.IH[OF c(2)] False c(1) show ?thesis by simp
  qed
qed

lemma cutOffsLoop_Plain_Inr:
  "cutOffsLoop Plain v toks ps = Inr ps' \<Longrightarrow>
     ps' = ps\<lparr>cutOffs := cutOffs ps @
             map (\<lambda>t. the (Atoi (TrimSpace t))) (filter (\<lambda>t. TrimSpace t \<noteq> []) toks)\<rparr> \<and>
     \<not> (\<exists>t \<in> set toks. TrimSpace t \<noteq> [] \<and> Atoi (TrimSpace t) = None)"
proof (induction toks arbitrary: ps)
  case Nil
  then show ?case by simp
next
  case (Cons t ts)
  show ?case
  proof (cases "TrimSpace t = []")
    case True
    then have "cutOffsLoop Plain v ts ps = Inr ps'"
      using Cons.prems by simp
    from Cons.IH[OF this] True show ?thesis by simp
  next
    case False
    then obtain c where c: "Atoi (TrimSpace t) = Some c"
        "cutOffsLoop Plain v ts (ps\<lparr>cutOffs := cutOffs ps @ [c]\<rparr>) = Inr ps'"
      using Cons.prems by (auto simp: Let_def split: option.splits)
    from Cons.IH[OF c(2)] False c(1) show ?thesis by simp
  qed
qed

lemma cutOffsLoop_Inl:
  "cutOffsLoop rv v toks ps = Inl f \<Longrightarrow>
     (\<exists>t \<in> set toks. TrimSpace t \<noteq> [] \<and> Atoi (TrimSpace t) = None) \<and>
     f = Failure (case rv of Plain \<Rightarrow> CantParseStatusCodes v | WithUsage \<Rightarrow> CantParseCutOffs v)"
  by (induction rv v toks ps rule: cutOffsLoop.induct)
     (auto simp: Let_def split: option.splits if_splits)

lemma codesLoop_Inr:
  "codesLoop v toks ps = Inr ps' \<Longrightarrow>
     ps' = ps\<lparr>codes := codes ps @
             map (\<lambda>t. the (Atoi (TrimSpace t))) (filter (\<lambda>t. TrimSpace t \<noteq> []) toks)\<rparr> \<and>
     \<not> (\<exists>t \<in> set toks. TrimSpace t \<noteq> [] \<and> Atoi (TrimSpace t) = None)"
proof (induction toks arbitrary: ps)
  case Nil
  then show ?case by simp
next
  case (Cons t ts)
  show ?case
  proof (cases "TrimSpace t = []")
    case True
    then have "codesLoop v ts ps = Inr ps'"
      using Cons.prems by simp
    from Cons.IH[OF this] True show ?thesis by simp
  next
    case False
    then obtain c where c: "Atoi (TrimSpace t) = Some c"
        "codesLoop v ts (ps\<lparr>codes := codes ps @ [c]\<rparr>) = Inr ps'"
      using Cons.prems by (auto simp: Let_def split: option.splits)
    from Cons.IH[OF c(2)] False c(1) show ?thesis by simp
  qed
qed

lemma codesLoop_Inl:
  "codesLoop v toks ps = Inl f \<Longrightarrow>
     (\<exists>t \<in> set toks. TrimSpace t \<noteq> [] \<and> Atoi (TrimSpace t) = None) \<and>
     f = Failure (CantParseStatusCodes v)"
  by (induction v toks ps rule: codesLoop.induct)
     (auto simp: Let_def split: option.splits if_splits)

lemma badInts_Nil: "\<not> badInts []"
  by (simp add: badInts_def TrimSpace_Nil)

lemma parseCutOffs_Inr:
  "parseCutOffs rv q ps = Inr ps' \<Longrightarrow>
     (\<exists>cs. ps' = ps\<lparr>cutOffs := cutOffs ps @ cs\<rparr> \<and>
        (rv = WithUsage \<longrightarrow>
           cs = (if Get q ''cutOffs'' = [] then []
                 else map (\<lambda>t. if TrimSpace t = [] then - 1 else the (Atoi (TrimSpace t)))
                        (Split (Get q ''cutOffs'') CHR '','')))) \<and>
     \<not> badInts (Get q ''cutOffs'')"
proof (cases rv)
  case Plain
  assume "parseCutOffs rv q ps = Inr ps'"
  then have "cutOffsLoop Plain (Get q ''cutOffs'') (Split (Get q ''cutOffs'') CHR '','') ps = Inr ps'"
    using Plain by (simp add: parseCutOffs_def Let_def)
  from cutOffsLoop_Plain_Inr[OF this] Plain show ?thesis
    by (auto simp: badInts_def)
next
  case WithUsage
  assume a: "parseCutOffs rv q ps = Inr ps'"
  show ?thesis
  proof (cases "Get q ''cutOffs'' = []")
    case True
    then have "ps' = ps\<lparr>cutOffs := cutOffs ps @ []\<rparr>"
      using a WithUsage by (simp add: parseCutOffs_def)
    then have "\<exists>cs. ps' = ps\<lparr>cutOffs := cutOffs ps @ cs\<rparr> \<and>
        (rv = WithUsage \<longrightarrow>
           cs = (if Get q ''cutOffs'' = [] then []
                 else map (\<lambda>t. if TrimSpace t = [] then - 1 else the (Atoi (TrimSpace t)))
                        (Split (Get q ''cutOffs'') CHR '','')))"
      using True by (intro exI[of _ "[]"]) simp
    then show ?thesis using True badInts_Nil by simp
  next
    case False
    then have "cutOffsLoop WithUsage (Get q ''cutOffs'') (Split (Get q ''cutOffs'') CHR '','') ps
                 = Inr ps'"
      using a WithUsage by (simp add: parseCutOffs_def Let_def)
    from cutOffsLoop_WithUsage_Inr[OF this] False show ?thesis
      by (auto simp: badInts_def)
  qed
qed

lemma parseCutOffs_Inl:
  "parseCutOffs rv q ps = Inl f \<Longrightarrow>
     \<exists>e. f = Failure e \<and> names rv pd q e \<and> badInts (Get q ''cutOffs'')"
proof -
  assume a: "parseCutOffs rv q ps = Inl f"
  then have "cutOffsLoop rv (Get q ''cutOffs'') (Split (Get q ''cutOffs'') CHR '','') ps = Inl f"
    by (cases rv) (auto simp: parseCutOffs_def Let_def split: if_splits)
  from cutOffsLoop_Inl[OF this] show ?thesis
    by (cases rv) (auto simp: badInts_def)
qed

lemma parseCodes_Inr:
  "parseCodes q ps = Inr ps' \<Longrightarrow>
     (\<exists>ks. ps' = ps\<lparr>codes := codes ps @ ks\<rparr>) \<and> \<not> badInts (Get q ''codes'')"
proof (cases "Get q ''codes'' = []")
  case True
  assume "parseCodes q ps = Inr ps'"
  then have "ps' = ps\<lparr>codes := codes ps @ []\<rparr>" using True by (simp add: parseCodes_def)
  then have "\<exists>ks. ps' = ps\<lparr>codes := codes ps @ ks\<rparr>" by (rule exI)
  then show ?thesis using True badInts_Nil by simp
next
  case False
  assume "parseCodes q ps = Inr ps'"
  then have "codesLoop (Get q ''codes'') (Split (Get q ''codes'') CHR '','') ps = Inr ps'"
    using False by (simp add: parseCodes_def Let_def)
  from codesLoop_Inr[OF this] show ?thesis by (auto simp: badInts_def)
qed

lemma parseCodes_Inl:
  "parseCodes q ps = Inl f \<Longrightarrow>
     \<exists>e. f = Failure e \<and> names rv pd q e \<and> badInts (Get q ''codes'')"
proof -
  assume a: "parseCodes q ps = Inl f"
  then have "codesLoop (Get q ''codes'') (Split (Get q ''codes'') CHR '','') ps = Inl f"
    by (auto simp: parseCodes_def Let_def split: if_splits)
  from codesLoop_Inl[OF this] show ?thesis by (auto simp: badInts_def)
qed


subsection \<open>The whole parser\<close>

lemma parseParams_steps:
  "(\<exists>f. parseDelay pd q zeroParams = Inl f \<and> parseParams rv pd q = Inl f) \<or>
     (\<exists>p1. parseDelay pd q zeroParams = Inr p1 \<and>
        ((\<exists>f. parseSize q p1 = Inl f \<and> parseParams rv pd q = Inl f) \<or>
         (\<exists>p2. parseSize q p1 = Inr p2 \<and>
            ((\<exists>f. parseBps q p2 = Inl f \<and> parseParams rv pd q = Inl f) \<or>
             (\<exists>p3. parseBps q p2 = Inr p3 \<and>
                ((\<exists>f. parseCutOffs rv q p3 = Inl f \<and> parseParams rv pd q = Inl f) \<or>
                 (\<exists>p4. parseCutOffs rv q p3 = Inr p4 \<and>
                    ((\<exists>f. parseCodes q p4 = Inl f \<and> parseParams rv pd q = Inl f) \<or>
                     (\<exists>p5. parseCodes q p4 = Inr p5 \<and>
                        parseParams rv pd q =
                          Inr (p5\<lparr>isBinary := Has q ''bin'', id' := Get q ''id''\<rparr>))))))))))"
proof -
  show ?thesis
  proof (cases "parseDelay pd q zeroParams")
    case (Inl f)
    then show ?thesis by (simp add: parseParams_def andThen_def)
  next
    case d: (Inr p1)
    show ?thesis
    proof (cases "parseSize q p1")
      case (Inl f)
      then show ?thesis using d by (simp add: parseParams_def andThen_def)
    next
      case z: (Inr p2)
      show ?thesis
      proof (cases "parseBps q p2")
        case (Inl f)
        then show ?thesis using d z by (simp add: parseParams_def andThen_def)
      next
        case b: (Inr p3)
        show ?thesis
        proof (cases "parseCutOffs rv q p3")
          case (Inl f)
          then show ?thesis using d z b by (simp add: parseParams_def andThen_def)
        next
          case c: (Inr p4)
          show ?thesis
          proof (cases "parseCodes q p4")
            case (Inl f)
            then show ?thesis using d z b c by (simp add: parseParams_def andThen_def)
          next
            case (Inr p5)
            then show ?thesis using d z b c by (simp add: parseParams_def andThen_def)
          qed
        qed
      qed
    qed
  qed
qed

lemma parseParams_Inr:
  assumes "parseParams rv pd q = Inr p"
  shows "\<exists>ds cs ks n bo.
           p = \<lparr>id' = Get q ''id'', randomDelay = [], delays = ds, codes = ks, cutOffs = cs,
                size' = n, bytesPerSec = bo, isBinary = Has q ''bin'', sessionCount = 0\<rparr> \<and>
           Atoi (Get q ''size'') = Some n \<and>
           (rv = WithUsage \<longrightarrow>
              cs = (if Get q ''cutOffs'' = [] then []
                    else map (\<lambda>t. if TrimSpace t = [] then - 1 else the (Atoi (TrimSpace t)))
                           (Split (Get q ''cutOffs'') CHR '','')))"
    and "\<not> malformed pd q" and "\<not> rangeStart pd q"
proof -
  from parseParams_steps[of pd q rv] assms obtain p1 p2 p3 p4 p5 where
    s: "parseDelay pd q zeroParams = Inr p1" "parseSize q p1 = Inr p2"
       "parseBps q p2 = Inr p3" "parseCutOffs rv q p3 = Inr p4" "parseCodes q p4 = Inr p5"
       "p = p5\<lparr>isBinary := Has q ''bin'', id' := Get q ''id''\<rparr>"
    by auto
  from parseDelay_Inr[OF s(1)] obtain ds where
    p1: "p1 = zeroParams\<lparr>delays := ds\<rparr>" and d: "\<not> rangeStart pd q"
      "\<not> badDelay pd (Get q ''delay'')" by auto
  from parseSize_Inr[OF s(2)] obtain n where
    p2: "p2 = p1\<lparr>size' := n\<rparr>" and n: "Atoi (Get q ''size'') = Some n" "Get q ''size'' \<noteq> []"
    by auto
  from parseBps_Inr[OF s(3)] obtain bo where
    p3: "p3 = p2\<lparr>bytesPerSec := bo\<rparr>"
    and b: "\<not> (Get q ''bps'' \<noteq> [] \<and> Atoi (Get q ''bps'') = None)" by auto
  from parseCutOffs_Inr[OF s(4)] obtain cs where
    p4: "p4 = p3\<lparr>cutOffs := cutOffs p3 @ cs\<rparr>"
    and cs: "rv = WithUsage \<longrightarrow>
           cs = (if Get q ''cutOffs'' = [] then []
                 else map (\<lambda>t. if TrimSpace t = [] then - 1 else the (Atoi (TrimSpace t)))
                        (Split (Get q ''cutOffs'') CHR '',''))"
    and c: "\<not> badInts (Get q ''cutOffs'')" by auto
  from parseCodes_Inr[OF s(5)] obtain ks where
    p5: "p5 = p4\<lparr>codes := codes p4 @ ks\<rparr>" and k: "\<not> badInts (Get q ''codes'')" by auto
  have "p = \<lparr>id' = Get q ''id'', randomDelay = [], delays = ds, codes = ks, cutOffs = cs,
                size' = n, bytesPerSec = bo, isBinary = Has q ''bin'', sessionCount = 0\<rparr>"
    by (simp add: s(6) p5 p4 p3 p2 p1 zeroParams_def)
  then show "\<exists>ds cs ks n bo.
           p = \<lparr>id' = Get q ''id'', randomDelay = [], delays = ds, codes = ks, cutOffs = cs,
                size' = n, bytesPerSec = bo, isBinary = Has q ''bin'', sessionCount = 0\<rparr> \<and>
           Atoi (Get q ''size'') = Some n \<and>
           (rv = WithUsage \<longrightarrow>
              cs = (if Get q ''cutOffs'' = [] then []
                    else map (\<lambda>t. if TrimSpace t = [] then - 1 else the (Atoi (TrimSpace t)))
                           (Split (Get q ''cutOffs'') CHR '','')))"
    using n(1) cs by blast
  show "\<not> malformed pd q" using d(2) n b c k by (simp add: malformed_def)
  show "\<not> rangeStart pd q" by (rule d(1))
qed

lemma parseParams_Failure:
  assumes "parseParams rv pd q = Inl (Failure e)"
  shows "malformed pd q \<and> \<not> rangeStart pd q \<and> names rv pd q e"
proof -
  consider
    (delay) "parseDelay pd q zeroParams = Inl (Failure e)"
  | (size) p1 where "parseDelay pd q zeroParams = Inr p1" "parseSize q p1 = Inl (Failure e)"
  | (bps) p1 p2 where "parseDelay pd q zeroParams = Inr p1" "parseBps q p2 = Inl (Failure e)"
  | (cutOffs) p1 p3 where "parseDelay pd q zeroParams = Inr p1"
      "parseCutOffs rv q p3 = Inl (Failure e)"
  | (codes) p1 p4 where "parseDelay pd q zeroParams = Inr p1" "parseCodes q p4 = Inl (Failure e)"
    using parseParams_steps[of pd q rv] assms by auto
  then show ?thesis
  proof cases
    case delay
    from parseDelay_Failure[OF this, of rv] show ?thesis by (simp add: malformed_def)
  next
    case size
    from parseDelay_Inr[OF size(1)] parseSize_Inl[OF size(2), of rv pd] show ?thesis
      by (auto simp: malformed_def)
  next
    case bps
    from parseDelay_Inr[OF bps(1)] parseBps_Inl[OF bps(2), of rv pd] show ?thesis
      by (auto simp: malformed_def)
  next
    case cutOffs
    from parseDelay_Inr[OF cutOffs(1)] parseCutOffs_Inl[OF cutOffs(2), of pd] show ?thesis
      by (auto simp: malformed_def)
  next
    case codes
    from parseDelay_Inr[OF codes(1)] parseCodes_Inl[OF codes(2), of rv pd] show ?thesis
      by (auto simp: malformed_def)
  qed
qed

lemma parseParams_Panic:
  assumes "parseParams rv pd q = Inl (Panic pn)"
  shows "rangeStart pd q \<and> pn = IndexOutOfRange 0 0"
proof -
  consider
    (delay) "parseDelay pd q zeroParams = Inl (Panic pn)"
  | (size) p1 where "parseSize q p1 = Inl (Panic pn)"
  | (bps) p2 where "parseBps q p2 = Inl (Panic pn)"
  | (cutOffs) p3 where "parseCutOffs rv q p3 = Inl (Panic pn)"
  | (codes) p4 where "parseCodes q p4 = Inl (Panic pn)"
    using parseParams_steps[of pd q rv] assms by auto
  then show ?thesis
  proof cases
    case delay
    then show ?thesis by (rule parseDelay_Panic)
  next
    case size
    from parseSize_Inl[OF this, of rv pd] show ?thesis by auto
  next
    case bps
    from parseBps_Inl[OF this, of rv pd] show ?thesis by auto
  next
    case cutOffs
    from parseCutOffs_Inl[OF this, of pd] show ?thesis by auto
  next
    case codes
    from parseCodes_Inl[OF this, of rv pd] show ?thesis by auto
  qed
qed

text \<open>The three outcomes of the parser, by the shape of the query.\<close>

lemma parseParams_malformed:
  assumes "malformed pd q" and "\<not> rangeStart pd q"
  shows "\<exists>e. parseParams rv pd q = Inl (Failure e) \<and> names rv pd q e"
proof (cases "parseParams rv pd q")
  case (Inr p)
  from parseParams_Inr(2)[OF this] assms(1) show ?thesis by simp
next
  case (Inl f)
  show ?thesis
  proof (cases f)
    case (Failure e)
    then show ?thesis using Inl parseParams_Failure[of rv pd q e] by simp
  next
    case (Panic pn)
    then show ?thesis using Inl parseParams_Panic[of rv pd q pn] assms(2) by simp
  qed
qed

lemma parseParams_wellformed:
  assumes "\<not> malformed pd q" and "\<not> rangeStart pd q"
  shows "\<exists>p. parseParams rv pd q = Inr p"
proof (cases "parseParams rv pd q")
  case (Inr p)
  then show ?thesis by simp
next
  case (Inl f)
  show ?thesis
  proof (cases f)
    case (Failure e)
    then show ?thesis using Inl parseParams_Failure[of rv pd q e] assms(1) by simp
  next
    case (Panic pn)
    then show ?thesis using Inl parseParams_Panic[of rv pd q pn] assms(2) by simp
  qed
qed

section \<open>Truncated delivery\<close>

text \<open>
  Claim C1, as amended. For a descriptor of size \<open>N > 0\<close> whose resolved truncation
  limit is \<open>c \<ge> 0\<close>, whose \<^verbatim>\<open>bytesPerSec\<close>, when present, is positive, and whose payload
  buffer is allocated (the chunk size is one that \<^verbatim>\<open>make\<close> accepts), the handler from
  \<^verbatim>\<open>WriteHeader\<close> on returns, the delivery loop writes exactly \<open>min N c\<close> payload bytes,
  and it hijacks and closes the connection if and only if \<open>c < N\<close>; for \<open>c = 0\<close> the
  loop does one write of zero bytes, a flush and the close.
\<close>

theorem C1_truncated_delivery:
  assumes "0 < size' p" and "cutOff p = Inr c" and "0 \<le> c"
    and "\<forall>b. bytesPerSec p = Some b \<longrightarrow> 0 < b"
    and "payload p (case bytesPerSec p of None \<Rightarrow> size' p | Some b \<Rightarrow> b) ent = Inr data"
  shows "\<exists>tr'. stream ent p code tr =
           (tr @ [WriteHeader code,
                  HeaderAdd ''Content-Type''
                    (if isBinary p then ''application/octet-stream''
                     else ''text/plain; charset=us-ascii''),
                  HeaderAdd ''Content-Length'' (Itoa (size' p))] @ tr', Returned) \<and>
         int (written tr') = min (size' p) c \<and>
         (HijackClose \<in> set tr' \<longleftrightarrow> c < size' p) \<and>
         (c = 0 \<longrightarrow> tr' = [Write [], Flush, HijackClose])"
proof -
  let ?chunk = "case bytesPerSec p of None \<Rightarrow> size' p | Some bps \<Rightarrow> bps"
  have chunk: "0 < ?chunk" using assms(1,4) by (cases "bytesPerSec p") auto
  have "length data = nat ?chunk" using payload_Inr[OF assms(5)] by simp
  then have len: "0 < length data" using chunk by simp
  let ?hd = "tr @ [WriteHeader code,
                  HeaderAdd ''Content-Type''
                    (if isBinary p then ''application/octet-stream''
                     else ''text/plain; charset=us-ascii''),
                  HeaderAdd ''Content-Length'' (Itoa (size' p))]"
  obtain tr' where tr': "deliver data (size' p) c ?hd = Some (?hd @ tr')"
      "int (written tr') = min (size' p) c" "HijackClose \<in> set tr' \<longleftrightarrow> c < size' p"
      "c = 0 \<longrightarrow> tr' = [Write [], Flush, HijackClose]"
    using deliver_cut[OF len assms(1,3), of ?hd] by blast
  have "stream ent p code tr = (?hd @ tr', Returned)"
    using assms(5,2) tr'(1) by (simp add: stream_def)
  then show ?thesis using tr'(2,3,4) by simp
qed

text \<open>The theorem at the query \<^verbatim>\<open>size=1000&cutOffs=300\<close>: 300 bytes, then the close.\<close>

theorem C1_truncated_delivery_witness:
  "0 < size' (zeroParams\<lparr>size' := 1000, cutOffs := [300]\<rparr>) \<and>
   parseParams WithUsage sampleDurations [''size'' \<mapsto> [''1000''], ''cutOffs'' \<mapsto> [''300'']] =
     Inr (zeroParams\<lparr>size' := 1000, cutOffs := [300]\<rparr>) \<and>
   cutOff (zeroParams\<lparr>size' := 1000, cutOffs := [300]\<rparr>) = Inr 300 \<and>
   bytesPerSec (zeroParams\<lparr>size' := 1000, cutOffs := [300]\<rparr>) = None \<and>
   (\<exists>data. payload (zeroParams\<lparr>size' := 1000, cutOffs := [300]\<rparr>) 1000 sampleEntropy =
             Inr data) \<and>
   (\<exists>tr'. stream sampleEntropy (zeroParams\<lparr>size' := 1000, cutOffs := [300]\<rparr>) 200 [] =
           ([WriteHeader 200, HeaderAdd ''Content-Type'' ''text/plain; charset=us-ascii'',
             HeaderAdd ''Content-Length'' (Itoa 1000)] @ tr', Returned) \<and>
          int (written tr') = 300 \<and> HijackClose \<in> set tr')"
proof -
  let ?p = "zeroParams\<lparr>size' := 1000, cutOffs := [300]\<rparr>"
  have h1: "0 < size' ?p" by simp
  have h2: "cutOff ?p = Inr 300" by (simp add: cutOff_def at_def zeroParams_def)
  have h3: "\<forall>b. bytesPerSec ?p = Some b \<longrightarrow> 0 < b" by (simp add: zeroParams_def)
  have h4: "parseParams WithUsage sampleDurations
      [''size'' \<mapsto> [''1000''], ''cutOffs'' \<mapsto> [''300'']] = Inr ?p"
    by (simp add: parse_eval)
  have i: "isBinary ?p = False" "bytesPerSec ?p = None" by (simp_all add: zeroParams_def)
  obtain data where data: "payload ?p 1000 sampleEntropy = Inr data"
    using payload_allocated[of 1000 ?p sampleEntropy] by (auto simp: maxAlloc_def)
  then have h5: "payload ?p (case bytesPerSec ?p of None \<Rightarrow> size' ?p | Some b \<Rightarrow> b)
                   sampleEntropy = Inr data"
    using i(2) by simp
  have "\<exists>tr'. stream sampleEntropy ?p 200 [] =
           ([WriteHeader 200, HeaderAdd ''Content-Type'' ''text/plain; charset=us-ascii'',
             HeaderAdd ''Content-Length'' (Itoa 1000)] @ tr', Returned) \<and>
          int (written tr') = 300 \<and> HijackClose \<in> set tr'"
    using C1_truncated_delivery[OF h1 h2 _ h3 h5, of 200 "[]"] by (simp add: i(1))
  then show ?thesis using h1 h2 h4 i(2) data by blast
qed

text \<open>
  The claim as stated covers every descriptor that parses, and the parser checks no
  range. \<^verbatim>\<open>bps=0\<close> parses: with \<^verbatim>\<open>size=10&bps=0&cutOffs=5\<close> the payload buffer is empty,
  every round of the loop writes zero bytes and sleeps, and the loop never ends: no 5
  bytes, no close. \<^verbatim>\<open>bps=9223372036854775807\<close> parses too: with
  \<^verbatim>\<open>size=10&bps=9223372036854775807&cutOffs=5\<close> the handler panics in \<^verbatim>\<open>make\<close>, before
  the loop.
\<close>

theorem C1_zero_bps_counterexample:
  "parseParams Plain sampleDurations
     [''size'' \<mapsto> [''10''], ''bps'' \<mapsto> [''0''], ''cutOffs'' \<mapsto> [''5'']] =
     Inr (zeroParams\<lparr>size' := 10, bytesPerSec := Some 0, cutOffs := [5]\<rparr>) \<and>
   cutOff (zeroParams\<lparr>size' := 10, bytesPerSec := Some 0, cutOffs := [5]\<rparr>) = Inr 5 \<and>
   stream sampleEntropy (zeroParams\<lparr>size' := 10, bytesPerSec := Some 0, cutOffs := [5]\<rparr>) 200 [] =
     ([WriteHeader 200, HeaderAdd ''Content-Type'' ''text/plain; charset=us-ascii'',
       HeaderAdd ''Content-Length'' ''10''], Diverged) \<and>
   parseParams Plain sampleDurations
     [''size'' \<mapsto> [''10''], ''bps'' \<mapsto> [''9223372036854775807''], ''cutOffs'' \<mapsto> [''5'']] =
     Inr (zeroParams\<lparr>size' := 10, bytesPerSec := Some 9223372036854775807, cutOffs := [5]\<rparr>) \<and>
   stream sampleEntropy
       (zeroParams\<lparr>size' := 10, bytesPerSec := Some 9223372036854775807, cutOffs := [5]\<rparr>)
       200 [] =
     ([WriteHeader 200, HeaderAdd ''Content-Type'' ''text/plain; charset=us-ascii'',
       HeaderAdd ''Content-Length'' ''10''],
      Panicked (MakeLenOutOfRange 9223372036854775807))"
proof (intro conjI)
  show "parseParams Plain sampleDurations
     [''size'' \<mapsto> [''10''], ''bps'' \<mapsto> [''0''], ''cutOffs'' \<mapsto> [''5'']] =
     Inr (zeroParams\<lparr>size' := 10, bytesPerSec := Some 0, cutOffs := [5]\<rparr>)"
    by (simp add: parse_eval)
  show "cutOff (zeroParams\<lparr>size' := 10, bytesPerSec := Some 0, cutOffs := [5]\<rparr>) = Inr 5"
    by (simp add: cutOff_def at_def zeroParams_def)
  show "stream sampleEntropy (zeroParams\<lparr>size' := 10, bytesPerSec := Some 0, cutOffs := [5]\<rparr>) 200 [] =
     ([WriteHeader 200, HeaderAdd ''Content-Type'' ''text/plain; charset=us-ascii'',
       HeaderAdd ''Content-Length'' ''10''], Diverged)"
    by (simp add: stream_def payload_def randString_def makeOutOfRange_def maxAlloc_def
        cutOff_def at_def zeroParams_def deliver_stuck Itoa_def natDigits.simps)
  show "parseParams Plain sampleDurations
     [''size'' \<mapsto> [''10''], ''bps'' \<mapsto> [''9223372036854775807''], ''cutOffs'' \<mapsto> [''5'']] =
     Inr (zeroParams\<lparr>size' := 10, bytesPerSec := Some 9223372036854775807, cutOffs := [5]\<rparr>)"
    by (simp add: parse_eval)
  show "stream sampleEntropy
       (zeroParams\<lparr>size' := 10, bytesPerSec := Some 9223372036854775807, cutOffs := [5]\<rparr>)
       200 [] =
     ([WriteHeader 200, HeaderAdd ''Content-Type'' ''text/plain; charset=us-ascii'',
       HeaderAdd ''Content-Length'' ''10''],
      Panicked (MakeLenOutOfRange 9223372036854775807))"
    by (simp add: stream_def payload_def randString_def makeOutOfRange_def maxAlloc_def
        zeroParams_def Itoa_def natDigits.simps)
qed

section \<open>Paced delivery\<close>

text \<open>
  Claim C8, as amended. For a descriptor of size \<open>N > 0\<close> with \<^verbatim>\<open>bytesPerSec\<close> present
  and equal to \<open>b > 0\<close>, whose payload buffer of \<open>b\<close> bytes is allocated, and no
  truncation (the resolved limit is negative), the delivery loop ends after exactly
  \<open>\<lceil>N / b\<rceil>\<close> writes, each of at most \<open>b\<close> bytes, with exactly \<open>\<lceil>N / b\<rceil> - 1\<close> sleeps of
  one second, one between every two consecutive writes: the trace is \<open>\<lceil>N / b\<rceil> - 1\<close>
  times a write of the whole buffer, a flush and a sleep, and then the last write. All
  \<open>N\<close> bytes are written and the connection is not closed by force.
\<close>

theorem C8_paced_delivery:
  assumes "0 < size' p" and "bytesPerSec p = Some b" and "0 < b"
    and "payload p b ent = Inr data" and "cutOff p = Inr c" and "c < 0"
  shows "\<exists>tr'. stream ent p code tr =
           (tr @ [WriteHeader code,
                  HeaderAdd ''Content-Type''
                    (if isBinary p then ''application/octet-stream''
                     else ''text/plain; charset=us-ascii''),
                  HeaderAdd ''Content-Length'' (Itoa (size' p))] @ tr', Returned) \<and>
         tr' = pacedTrace data
                 (nat (size' p) - (nat ((size' p + b - 1) div b) - 1) * nat b)
                 (nat ((size' p + b - 1) div b) - 1) \<and>
         sleepsBetweenWrites tr' \<and>
         length (writeSizes tr') = nat ((size' p + b - 1) div b) \<and>
         (\<forall>w \<in> set (writeSizes tr'). int w \<le> b) \<and>
         secondSleeps tr' = nat ((size' p + b - 1) div b) - 1 \<and>
         int (written tr') = size' p \<and> HijackClose \<notin> set tr'"
proof -
  have data: "length data = nat b" using payload_Inr[OF assms(4)] by simp
  let ?m = "nat (size' p)" and ?bn = "nat b"
  have m: "0 < ?m" "int ?m = size' p" using assms(1) by auto
  have bn: "0 < ?bn" "int ?bn = b" using assms(3) by auto
  let ?k = "(?m - 1) div ?bn"
  let ?r = "?m - ?k * ?bn"
  let ?tr' = "pacedTrace data ?r ?k"
  let ?hd = "tr @ [WriteHeader code,
                  HeaderAdd ''Content-Type''
                    (if isBinary p then ''application/octet-stream''
                     else ''text/plain; charset=us-ascii''),
                  HeaderAdd ''Content-Length'' (Itoa (size' p))]"
  have "deliver data (int ?m) c ?hd = Some (?hd @ ?tr')"
    using deliver_paced[of data c ?m ?hd] data bn(1) m(1) assms(6) by simp
  then have st: "stream ent p code tr = (?hd @ ?tr', Returned)"
    using assms(2,4,5) m(2) by (simp add: stream_def)
  have k: "nat ((size' p + b - 1) div b) = Suc ?k"
    using ceil_nat[OF m(1) bn(1)] m(2) bn(2) by simp
  have w: "\<forall>w \<in> set (writeSizes ?tr'). int w \<le> b"
  proof
    fix w assume "w \<in> set (writeSizes ?tr')"
    then have "w \<le> nat b" using pacedTrace_sizes[of w data ?r ?k] data by simp
    then show "int w \<le> b" using assms(3) by linarith
  qed
  have wr: "int (written ?tr') = size' p"
  proof -
    have "written ?tr' = ?k * ?bn + ?r"
      using pacedTrace_written[of ?r data ?k] last_chunk(1)[OF m(1) bn(1)] data by simp
    also have "\<dots> = ?m" by (rule last_chunk(3)[OF m(1) bn(1)])
    finally show ?thesis using m(2) by simp
  qed
  show ?thesis
  proof (intro exI[of _ ?tr'] conjI)
    show "stream ent p code tr =
           (tr @ [WriteHeader code,
                  HeaderAdd ''Content-Type''
                    (if isBinary p then ''application/octet-stream''
                     else ''text/plain; charset=us-ascii''),
                  HeaderAdd ''Content-Length'' (Itoa (size' p))] @ ?tr', Returned)"
      using st by simp
    show "?tr' = pacedTrace data
                 (nat (size' p) - (nat ((size' p + b - 1) div b) - 1) * nat b)
                 (nat ((size' p + b - 1) div b) - 1)"
      unfolding k by simp
    show "sleepsBetweenWrites ?tr'" by (rule pacedTrace_between)
    show "length (writeSizes ?tr') = nat ((size' p + b - 1) div b)"
      unfolding k by (rule pacedTrace_writes)
    show "\<forall>w \<in> set (writeSizes ?tr'). int w \<le> b" by (rule w)
    show "secondSleeps ?tr' = nat ((size' p + b - 1) div b) - 1"
      unfolding k by (simp add: pacedTrace_sleeps)
    show "int (written ?tr') = size' p" by (rule wr)
    show "HijackClose \<notin> set ?tr'" by (rule pacedTrace_noClose)
  qed
qed

text \<open>The theorem at \<^verbatim>\<open>bps=100&size=1000\<close>: 10 writes and 9 sleeps between them.\<close>

theorem C8_paced_delivery_witness:
  "parseParams WithUsage sampleDurations [''size'' \<mapsto> [''1000''], ''bps'' \<mapsto> [''100'']] =
     Inr (zeroParams\<lparr>size' := 1000, bytesPerSec := Some 100\<rparr>) \<and>
   0 < size' (zeroParams\<lparr>size' := 1000, bytesPerSec := Some 100\<rparr>) \<and>
   bytesPerSec (zeroParams\<lparr>size' := 1000, bytesPerSec := Some 100\<rparr>) = Some 100 \<and>
   cutOff (zeroParams\<lparr>size' := 1000, bytesPerSec := Some 100\<rparr>) = Inr (- 1) \<and>
   (\<exists>data tr'.
      payload (zeroParams\<lparr>size' := 1000, bytesPerSec := Some 100\<rparr>) 100 sampleEntropy =
        Inr data \<and>
      stream sampleEntropy (zeroParams\<lparr>size' := 1000, bytesPerSec := Some 100\<rparr>) 200 [] =
           ([WriteHeader 200, HeaderAdd ''Content-Type'' ''text/plain; charset=us-ascii'',
             HeaderAdd ''Content-Length'' (Itoa 1000)] @ tr', Returned) \<and>
      tr' = pacedTrace data 100 9 \<and> sleepsBetweenWrites tr' \<and>
      length (writeSizes tr') = 10 \<and> (\<forall>w \<in> set (writeSizes tr'). int w \<le> 100) \<and>
      secondSleeps tr' = 9 \<and> int (written tr') = 1000 \<and> HijackClose \<notin> set tr')"
proof -
  let ?p = "zeroParams\<lparr>size' := 1000, bytesPerSec := Some 100\<rparr>"
  have h0: "parseParams WithUsage sampleDurations
      [''size'' \<mapsto> [''1000''], ''bps'' \<mapsto> [''100'']] = Inr ?p"
    by (simp add: parse_eval)
  have h1: "0 < size' ?p" by simp
  have h2: "bytesPerSec ?p = Some 100" by simp
  have h3: "cutOff ?p = Inr (- 1)" by (simp add: cutOff_def zeroParams_def)
  have i: "isBinary ?p = False" by (simp add: zeroParams_def)
  obtain data where data: "payload ?p 100 sampleEntropy = Inr data"
    using payload_allocated[of 100 ?p sampleEntropy] by (auto simp: maxAlloc_def)
  have "\<exists>tr'. stream sampleEntropy ?p 200 [] =
           ([WriteHeader 200, HeaderAdd ''Content-Type'' ''text/plain; charset=us-ascii'',
             HeaderAdd ''Content-Length'' (Itoa 1000)] @ tr', Returned) \<and>
      tr' = pacedTrace data 100 9 \<and> sleepsBetweenWrites tr' \<and>
      length (writeSizes tr') = 10 \<and> (\<forall>w \<in> set (writeSizes tr'). int w \<le> 100) \<and>
      secondSleeps tr' = 9 \<and> int (written tr') = 1000 \<and> HijackClose \<notin> set tr'"
    using C8_paced_delivery[OF h1 h2 _ data h3, of 200 "[]"] by (simp add: i)
  then show ?thesis using h0 h1 h2 h3 data by blast
qed

text \<open>
  The claim as stated covers every positive \<open>b\<close>, and the parser checks no range:
  \<^verbatim>\<open>size=10&bps=9223372036854775807\<close> parses, and the handler panics in \<^verbatim>\<open>make\<close> when it
  asks for the payload buffer; the loop is never entered and nothing is written.
\<close>

theorem C8_huge_bps_counterexample:
  "parseParams Plain sampleDurations
     [''size'' \<mapsto> [''10''], ''bps'' \<mapsto> [''9223372036854775807'']] =
     Inr (zeroParams\<lparr>size' := 10, bytesPerSec := Some 9223372036854775807\<rparr>) \<and>
   cutOff (zeroParams\<lparr>size' := 10, bytesPerSec := Some 9223372036854775807\<rparr>) = Inr (- 1) \<and>
   stream sampleEntropy (zeroParams\<lparr>size' := 10, bytesPerSec := Some 9223372036854775807\<rparr>)
       200 [] =
     ([WriteHeader 200, HeaderAdd ''Content-Type'' ''text/plain; charset=us-ascii'',
       HeaderAdd ''Content-Length'' ''10''],
      Panicked (MakeLenOutOfRange 9223372036854775807))"
proof (intro conjI)
  show "parseParams Plain sampleDurations
     [''size'' \<mapsto> [''10''], ''bps'' \<mapsto> [''9223372036854775807'']] =
     Inr (zeroParams\<lparr>size' := 10, bytesPerSec := Some 9223372036854775807\<rparr>)"
    by (simp add: parse_eval)
  show "cutOff (zeroParams\<lparr>size' := 10, bytesPerSec := Some 9223372036854775807\<rparr>) =
          Inr (- 1)"
    by (simp add: cutOff_def zeroParams_def)
  show "stream sampleEntropy (zeroParams\<lparr>size' := 10, bytesPerSec := Some 9223372036854775807\<rparr>)
       200 [] =
     ([WriteHeader 200, HeaderAdd ''Content-Type'' ''text/plain; charset=us-ascii'',
       HeaderAdd ''Content-Length'' ''10''],
      Panicked (MakeLenOutOfRange 9223372036854775807))"
    by (simp add: stream_def payload_def randString_def makeOutOfRange_def maxAlloc_def
        zeroParams_def Itoa_def natDigits.simps)
qed

section \<open>The status of a step\<close>

text \<open>
  Claim C2. For a descriptor with a non-empty list of codes and a step \<open>n \<ge> 0\<close> the
  resolved status is \<open>codes[min(n, len(codes) - 1)]\<close>, and it is 200 when the list is
  empty; so with the codes 200, 500, 200 four requests in a row on a fresh session
  resolve 200, 500, 200 and 200.
\<close>

theorem C2_status_clamped:
  "(0 \<le> sessionCount p \<and> codes p \<noteq> [] \<longrightarrow>
      statusCode p = Inr (codes p ! min (nat (sessionCount p)) (length (codes p) - 1))) \<and>
   (codes p = [] \<longrightarrow> statusCode p = Inr 200) \<and>
   (codes p = [200, 500, 200] \<and> counter sessions (id' p) = 0 \<longrightarrow>
      sequentialStatuses 4 p sessions = [Inr 200, Inr 500, Inr 200, Inr 200])"
proof (intro conjI impI)
  assume a: "0 \<le> sessionCount p \<and> codes p \<noteq> []"
  show "statusCode p = Inr (codes p ! min (nat (sessionCount p)) (length (codes p) - 1))"
  proof (cases "int (length (codes p)) > sessionCount p")
    case True
    then have "min (nat (sessionCount p)) (length (codes p) - 1) = nat (sessionCount p)"
      using a by auto
    then show ?thesis using a True by (simp add: statusCode_def at_def)
  next
    case False
    then have "min (nat (sessionCount p)) (length (codes p) - 1) = length (codes p) - 1"
      using a by auto
    moreover have "nat (int (length (codes p)) - 1) = length (codes p) - 1" by simp
    ultimately show ?thesis using a False by (simp add: statusCode_def at_def)
  qed
next
  assume "codes p = []"
  then show "statusCode p = Inr 200" by (simp add: statusCode_def)
next
  assume a: "codes p = [200, 500, 200] \<and> counter sessions (id' p) = 0"
  have four: "(4::nat) = Suc (Suc (Suc (Suc 0)))" by simp
  show "sequentialStatuses 4 p sessions = [Inr 200, Inr 500, Inr 200, Inr 200]"
    unfolding four using a
    by (simp add: updateSession_def wrap64_def counter_def statusCode_def at_def Let_def)
qed


theorem C2_status_clamped_witness:
  "statusCode (zeroParams\<lparr>id' := ''a'', codes := [200, 500, 200], sessionCount := 7\<rparr>) = Inr 200 \<and>
   statusCode (zeroParams\<lparr>id' := ''a'', codes := [200, 500, 200], sessionCount := 1\<rparr>) = Inr 500 \<and>
   statusCode zeroParams = Inr 200 \<and>
   counter Map.empty ''a'' = 0 \<and>
   sequentialStatuses 4 (zeroParams\<lparr>id' := ''a'', codes := [200, 500, 200]\<rparr>) Map.empty =
     [Inr 200, Inr 500, Inr 200, Inr 200]"
  using C2_status_clamped[of "zeroParams\<lparr>id' := ''a'', codes := [200, 500, 200], sessionCount := 7\<rparr>" Map.empty]
    C2_status_clamped[of "zeroParams\<lparr>id' := ''a'', codes := [200, 500, 200], sessionCount := 1\<rparr>" Map.empty]
    C2_status_clamped[of "zeroParams" Map.empty]
    C2_status_clamped[of "zeroParams\<lparr>id' := ''a'', codes := [200, 500, 200]\<rparr>" Map.empty]
  by (simp add: zeroParams_def counter_def)

section \<open>The textual payload\<close>

lemma alphabet_size: "distinct alphabet \<and> length alphabet = 64"
  by (simp add: alphabet_def)

lemma letterRunes_alphabet: "set letterRunes = set alphabet"
proof -
  have split: "letterRunes = take 62 alphabet @ CHR ''0'' # drop 62 alphabet"
    by (simp add: letterRunes_def alphabet_def)
  have mid: "set (xs @ a # ys) = insert a (set (xs @ ys))" for xs ys :: string and a
    by simp
  have "set (take 62 alphabet @ CHR ''0'' # drop 62 alphabet) =
          insert CHR ''0'' (set (take 62 alphabet @ drop 62 alphabet))"
    by (rule mid)
  also have "\<dots> = insert CHR ''0'' (set alphabet)"
    by (simp only: append_take_drop_id)
  also have "\<dots> = set alphabet"
    by (rule insert_absorb) (simp add: alphabet_def)
  finally show ?thesis unfolding split .
qed

text \<open>
  Claim C9, as amended. For a request without the \<^verbatim>\<open>bin\<close> flag every byte of the
  payload belongs to the alphabet of a to z, A to Z, 0 to 9, space and newline, which has
  64 characters; the byte at position \<open>i\<close> is the entry of the table \<^verbatim>\<open>letterRunes\<close>
  that the \<open>i\<close>-th sample of the generator selects, whatever the other samples are.
\<close>

theorem C9_text_payload_alphabet:
  "\<not> isBinary p \<and> payload p n ent = Inr data \<longrightarrow>
     length data = nat n \<and> set data \<subseteq> set alphabet \<and> card (set alphabet) = 64 \<and>
     (\<forall>i < length data.
        data ! i = letterRunes ! (letterSamples ent i mod length letterRunes))"
proof (intro impI)
  assume a: "\<not> isBinary p \<and> payload p n ent = Inr data"
  then have n: "0 \<le> n"
    and data: "data = map (\<lambda>i. letterRunes ! IntN (length letterRunes) (letterSamples ent i))
                 [0..<nat n]"
    by (auto simp: payload_def randString_def makeOutOfRange_def split: if_splits)
  have len: "length letterRunes = 65" by (simp add: letterRunes_def)
  have "set data \<subseteq> set letterRunes"
    unfolding data using len by (auto simp: IntN_def)
  moreover have "card (set alphabet) = 64"
    using alphabet_size by (simp add: distinct_card)
  ultimately show "length data = nat n \<and> set data \<subseteq> set alphabet \<and> card (set alphabet) = 64 \<and>
     (\<forall>i < length data.
        data ! i = letterRunes ! (letterSamples ent i mod length letterRunes))"
    using letterRunes_alphabet by (simp add: data IntN_def)
qed

theorem C9_text_payload_alphabet_witness:
  "\<not> isBinary zeroParams \<and> payload zeroParams 3 sampleEntropy = Inr ''036'' \<and>
   length ''036'' = nat 3 \<and> set ''036'' \<subseteq> set alphabet \<and> card (set alphabet) = 64"
  using C9_text_payload_alphabet[of zeroParams 3 sampleEntropy "''036''"]
  by (simp add: zeroParams_def payload_def randString_def makeOutOfRange_def maxAlloc_def
      sampleEntropy_def IntN_def letterRunes_def upt_rec)

text \<open>
  The claim as stated gives the alphabet 63 characters and a uniform draw from it. The
  alphabet has 64 characters, and the table has 65 entries, two of which are the digit
  0: the samples 52 and 62 both give it, every other character has one entry.
\<close>

theorem C9_alphabet_counterexample:
  "card (set alphabet) = 64 \<and> set letterRunes = set alphabet \<and> length letterRunes = 65 \<and>
   randString 1 (\<lambda>i. 52) = Inr ''0'' \<and> randString 1 (\<lambda>i. 62) = Inr ''0'' \<and>
   count_list letterRunes CHR ''0'' = 2 \<and> count_list letterRunes CHR ''1'' = 1"
  using alphabet_size letterRunes_alphabet
  by (simp add: distinct_card randString_def makeOutOfRange_def maxAlloc_def IntN_def
      letterRunes_def)

section \<open>The range form of the delay\<close>

text \<open>
  Claim C4 says that a delay of two pieces around a \<open>-\<close> that are both durations
  parses into a range. The parser assigns the first bound to \<^verbatim>\<open>params.randomDelay[0]\<close>,
  and the slice is empty: in both revisions every such query makes \<^verbatim>\<open>parseParams\<close>
  panic with an index out of range, whatever the other parameters are.
\<close>

theorem C4_range_delay_panics:
  "length (Split (Get q ''delay'') CHR ''-'') = 2 \<and>
   pd (Split (Get q ''delay'') CHR ''-'' ! 0) \<noteq> None \<and>
   pd (Split (Get q ''delay'') CHR ''-'' ! 1) \<noteq> None \<longrightarrow>
   parseParams rv pd q = Inl (Panic (IndexOutOfRange 0 0))"
proof
  assume a: "length (Split (Get q ''delay'') CHR ''-'') = 2 \<and>
   pd (Split (Get q ''delay'') CHR ''-'' ! 0) \<noteq> None \<and>
   pd (Split (Get q ''delay'') CHR ''-'' ! 1) \<noteq> None"
  then have "Get q ''delay'' \<noteq> []" by auto
  with a have "parseDelay pd q zeroParams = Inl (Panic (IndexOutOfRange 0 0))"
    by (auto simp: parseDelay_def setAt_def zeroParams_def Let_def)
  then show "parseParams rv pd q = Inl (Panic (IndexOutOfRange 0 0))"
    by (simp add: parseParams_def andThen_def)
qed

text \<open>The query \<^verbatim>\<open>size=10&delay=0ms-1s\<close>: the handler panics, no response is written and
  the registry is as before.\<close>

theorem C4_range_delay_panics_witness:
  "Split (Get [''size'' \<mapsto> [''10''], ''delay'' \<mapsto> [''0ms-1s'']] ''delay'') CHR ''-'' = [''0ms'', ''1s''] \<and>
   sampleDurations ''0ms'' = Some 0 \<and> sampleDurations ''1s'' = Some Second \<and>
   parseParams WithUsage sampleDurations [''size'' \<mapsto> [''10''], ''delay'' \<mapsto> [''0ms-1s'']] =
     Inl (Panic (IndexOutOfRange 0 0)) \<and>
   handler WithUsage sampleDurations True True sampleEntropy
       [''size'' \<mapsto> [''10''], ''delay'' \<mapsto> [''0ms-1s'']] Map.empty =
     (Map.empty, [], Panicked (IndexOutOfRange 0 0))"
  using C4_range_delay_panics[of "[''size'' \<mapsto> [''10''], ''delay'' \<mapsto> [''0ms-1s'']]"
      sampleDurations WithUsage]
  by (simp add: Get_def sampleDurations_def handler_def)

section \<open>The handler on a query that parses\<close>

text \<open>What the loop returns starts with what was done before it.\<close>

lemma deliver_extends:
  assumes some: "deliver data0 n0 c0 tr0 = Some y0"
  shows "\<exists>r. y0 = tr0 @ r"
proof (rule deliver.raw_induct
    [where P = "\<lambda>data n c tr y. \<exists>r. y = tr @ r", OF _ some])
  fix f :: "string \<Rightarrow> int \<Rightarrow> int \<Rightarrow> event list \<Rightarrow> event list option"
    and data n c tr y
  assume ih: "\<And>d m k t z. f d m k t = Some z \<Longrightarrow> \<exists>r. z = t @ r"
  let ?body = "if 0 < n
      then let size0 = int (length data);
               size1 = if n < size0 then n else size0;
               size2 = if 0 \<le> c \<and> c < size1 then c else size1;
               cutoff' = if 0 \<le> c then c - size2 else c;
               tr1 = tr @ [Write (take (nat size2) data)]; toSend' = n - size2
           in if 0 < toSend'
              then if cutoff' = 0 then Some (tr1 @ [Flush, HijackClose])
                   else f data toSend' cutoff' (tr1 @ [Flush, Sleep Second])
              else f data toSend' cutoff' tr1
      else Some tr"
  assume eq: "?body = Some y"
  show "\<exists>r. y = tr @ r"
    using eq by (auto simp: Let_def split: if_splits dest!: ih)
qed

lemma stream_extends:
  "\<exists>rest. fst (stream ent p code tr) =
      tr @ [WriteHeader code,
            HeaderAdd ''Content-Type''
              (if isBinary p then ''application/octet-stream''
               else ''text/plain; charset=us-ascii''),
            HeaderAdd ''Content-Length'' (Itoa (size' p))] @ rest"
proof -
  let ?hd = "tr @ [WriteHeader code,
            HeaderAdd ''Content-Type''
              (if isBinary p then ''application/octet-stream''
               else ''text/plain; charset=us-ascii''),
            HeaderAdd ''Content-Length'' (Itoa (size' p))]"
  have "\<exists>rest. fst (stream ent p code tr) = ?hd @ rest"
  proof (cases "payload p (case bytesPerSec p of None \<Rightarrow> size' p | Some bps \<Rightarrow> bps) ent")
    case (Inl pn)
    then show ?thesis by (simp add: stream_def)
  next
    case data: (Inr data)
    show ?thesis
    proof (cases "cutOff p")
      case (Inl pn)
      then show ?thesis using data by (simp add: stream_def)
    next
      case c: (Inr c)
      show ?thesis
      proof (cases "deliver data (size' p) c ?hd")
        case None
        then show ?thesis using data c by (simp add: stream_def)
      next
        case (Some tr2)
        from deliver_extends[OF this] obtain r where "tr2 = ?hd @ r" ..
        then show ?thesis using data c Some by (simp add: stream_def)
      qed
    qed
  qed
  then show ?thesis by simp
qed

lemma delayDuration_ok:
  "randomDelay p = [] \<Longrightarrow> 0 \<le> sessionCount p \<Longrightarrow> \<exists>dur. delayDuration p ent = Inr dur"
  by (auto simp: delayDuration_def at_def Let_def)

lemma statusCode_ok: "0 \<le> sessionCount p \<Longrightarrow> \<exists>code. statusCode p = Inr code"
  by (auto simp: statusCode_def at_def)

lemma parsed_randomDelay: "parseParams rv pd q = Inr p \<Longrightarrow> randomDelay p = []"
  using parseParams_Inr(1)[of rv pd q p] by auto

text \<open>The handler on a query that parses, on a connection that can be flushed and
  hijacked.\<close>

lemma handler_parsed:
  assumes "parseParams rv pd q = Inr p0" and "0 \<le> counter sessions (id' p0)"
  shows "\<exists>dur code.
           delayDuration (p0\<lparr>sessionCount := counter sessions (id' p0)\<rparr>) ent = Inr dur \<and>
           statusCode (p0\<lparr>sessionCount := counter sessions (id' p0)\<rparr>) = Inr code \<and>
           handler rv pd True True ent q sessions =
             (sessions(id' p0 \<mapsto> wrap64 (counter sessions (id' p0) + 1)),
              if quot code 100 \<noteq> 2
              then (if code < 100 \<or> 999 < code
                    then (if 0 < dur then [Sleep dur] else [],
                          Panicked (InvalidWriteHeaderCode code))
                    else ((if 0 < dur then [Sleep dur] else []) @
                            [HttpError (StatusText code) code],
                          Returned))
              else stream ent (p0\<lparr>sessionCount := counter sessions (id' p0)\<rparr>) code
                     (if 0 < dur then [Sleep dur] else []))"
proof -
  let ?p = "p0\<lparr>sessionCount := counter sessions (id' p0)\<rparr>"
  have "randomDelay ?p = []" using parsed_randomDelay[OF assms(1)] by simp
  then obtain dur where dur: "delayDuration ?p ent = Inr dur"
    using delayDuration_ok[of ?p ent] assms(2) by auto
  obtain code where code: "statusCode ?p = Inr code"
    using statusCode_ok[of ?p] assms(2) by auto
  have "handler rv pd True True ent q sessions =
             (sessions(id' p0 \<mapsto> wrap64 (counter sessions (id' p0) + 1)),
              if quot code 100 \<noteq> 2
              then (if code < 100 \<or> 999 < code
                    then (if 0 < dur then [Sleep dur] else [],
                          Panicked (InvalidWriteHeaderCode code))
                    else ((if 0 < dur then [Sleep dur] else []) @
                            [HttpError (StatusText code) code],
                          Returned))
              else stream ent ?p code (if 0 < dur then [Sleep dur] else []))"
    using assms(1) dur code
    by (simp add: handler_def updateSession_def delay_def Let_def split: prod.splits)
  then show ?thesis using dur code by blast
qed

text \<open>The registry after a call: untouched, or the counter of the request's id is one
  higher (wrapped around in 64 bits). So counters are not negative as long as none has
  reached \<open>2\<^sup>6\<^sup>3 - 1\<close>.\<close>

lemma handler_registry:
  "fst (handler rv pd flusherOk hijackerOk ent q sessions) = sessions \<or>
   (\<exists>p0. parseParams rv pd q = Inr p0 \<and>
      fst (handler rv pd flusherOk hijackerOk ent q sessions) =
        sessions(id' p0 \<mapsto> wrap64 (counter sessions (id' p0) + 1)))"
  by (auto simp: handler_def updateSession_def Let_def
      split: sum.splits fault.splits prod.splits)

lemma handler_counters_nonneg:
  assumes "\<forall>k. 0 \<le> counter sessions k \<and> counter sessions k < 2 ^ 63 - 1"
  shows "0 \<le> counter (fst (handler rv pd flusherOk hijackerOk ent q sessions)) k"
proof -
  from handler_registry[of rv pd flusherOk hijackerOk ent q sessions]
  show ?thesis
  proof
    assume "fst (handler rv pd flusherOk hijackerOk ent q sessions) = sessions"
    then show ?thesis using assms by simp
  next
    assume "\<exists>p0. parseParams rv pd q = Inr p0 \<and>
      fst (handler rv pd flusherOk hijackerOk ent q sessions) =
        sessions(id' p0 \<mapsto> wrap64 (counter sessions (id' p0) + 1))"
    then obtain p0 :: params where
      h: "fst (handler rv pd flusherOk hijackerOk ent q sessions) =
        sessions(id' p0 \<mapsto> wrap64 (counter sessions (id' p0) + 1))" by blast
    have c: "0 \<le> counter sessions (id' p0)" "counter sessions (id' p0) < 2 ^ 63 - 1"
      "0 \<le> counter sessions k"
      using assms by auto
    then have "wrap64 (counter sessions (id' p0) + 1) = counter sessions (id' p0) + 1"
      by (intro wrap64_id) auto
    then show ?thesis using h c by (simp add: counter_def)
  qed
qed

section \<open>The session step and the delay\<close>

lemma handler_step:
  "parseParams rv pd q = Inr p0 \<Longrightarrow>
     fst (handler rv pd True True ent q sessions) =
       sessions(id' p0 \<mapsto> wrap64 (counter sessions (id' p0) + 1))"
  by (simp add: handler_def updateSession_def Let_def split: sum.splits prod.splits)

lemma handler_delay_then_status:
  assumes "parseParams rv pd q = Inr p0" and "0 \<le> counter sessions (id' p0)"
  shows "\<exists>dur code rest e.
      handler rv pd True True ent q sessions =
        (sessions(id' p0 \<mapsto> wrap64 (counter sessions (id' p0) + 1)),
         (if 0 < dur then [Sleep dur] else []) @ rest, e) \<and>
      delayDuration (p0\<lparr>sessionCount := counter sessions (id' p0)\<rparr>) ent = Inr dur \<and>
      statusCode (p0\<lparr>sessionCount := counter sessions (id' p0)\<rparr>) = Inr code \<and>
      (quot code 100 \<noteq> 2 \<and> 100 \<le> code \<and> code \<le> 999 \<longrightarrow>
         rest = [HttpError (StatusText code) code] \<and> e = Returned) \<and>
      (code < 100 \<or> 999 < code \<longrightarrow>
         rest = [] \<and> e = Panicked (InvalidWriteHeaderCode code))"
proof -
  let ?p = "p0\<lparr>sessionCount := counter sessions (id' p0)\<rparr>"
  let ?s' = "sessions(id' p0 \<mapsto> wrap64 (counter sessions (id' p0) + 1))"
  from handler_parsed[OF assms, of ent] obtain dur code where
    h: "delayDuration ?p ent = Inr dur" "statusCode ?p = Inr code"
       "handler rv pd True True ent q sessions =
             (?s',
              if quot code 100 \<noteq> 2
              then (if code < 100 \<or> 999 < code
                    then (if 0 < dur then [Sleep dur] else [],
                          Panicked (InvalidWriteHeaderCode code))
                    else ((if 0 < dur then [Sleep dur] else []) @
                            [HttpError (StatusText code) code],
                          Returned))
              else stream ent ?p code (if 0 < dur then [Sleep dur] else []))"
    by auto
  let ?slept = "if 0 < dur then [Sleep dur] else []"
  consider (bad) "code < 100 \<or> 999 < code"
    | (err) "quot code 100 \<noteq> 2" "100 \<le> code" "code \<le> 999"
    | (ok) "quot code 100 = 2"
    by linarith
  then show ?thesis
  proof cases
    case bad
    then have "quot code 100 \<noteq> 2" using quot_100[of code] by auto
    then have "handler rv pd True True ent q sessions =
        (?s', ?slept @ [], Panicked (InvalidWriteHeaderCode code))"
      using h(3) bad by simp
    then show ?thesis using h(1,2) bad
      by (intro exI[of _ dur] exI[of _ code] exI[of _ "[]"]
            exI[of _ "Panicked (InvalidWriteHeaderCode code)"]) auto
  next
    case err
    then have "handler rv pd True True ent q sessions =
        (?s', ?slept @ [HttpError (StatusText code) code], Returned)"
      using h(3) by simp
    then show ?thesis using h(1,2) err
      by (intro exI[of _ dur] exI[of _ code] exI[of _ "[HttpError (StatusText code) code]"]
            exI[of _ Returned]) auto
  next
    case ok
    then have range: "200 \<le> code" "code \<le> 299" using quot_100[of code] by auto
    obtain rest where rest: "fst (stream ent ?p code ?slept) = ?slept @ rest"
      using stream_extends[of ent ?p code ?slept] by auto
    have "handler rv pd True True ent q sessions =
        (?s', ?slept @ rest, snd (stream ent ?p code ?slept))"
      using h(3) ok rest by (simp add: prod_eq_iff)
    then show ?thesis using h(1,2) ok range
      by (intro exI[of _ dur] exI[of _ code] exI[of _ rest]
            exI[of _ "snd (stream ent ?p code ?slept)"]) auto
  qed
qed

text \<open>
  Claim C10. For a request that parses (on a connection that passed the two capability
  checks), the registry after the call is the one before with the counter of the
  request's id incremented once, by the addition of Go's \<^verbatim>\<open>int\<close>, whatever happens
  next. With a counter that has not wrapped around (it is not negative and below
  \<open>2\<^sup>6\<^sup>3 - 1\<close>, which takes \<open>2\<^sup>6\<^sup>3\<close> requests on one id to leave), the new counter is the
  old one plus one, the delay and the status resolve, and the resolved delay is slept
  (when it is positive) before anything that depends on the status. A status outside 2xx
  that \<^verbatim>\<open>WriteHeader\<close> accepts (100 to 999) gives the error response after that sleep;
  a status that it refuses makes \<^verbatim>\<open>http.Error\<close> panic after that sleep, and no response
  is written. In both cases the request has consumed its step and its delay.
\<close>

theorem C10_step_and_delay_before_status:
  "flusherOk \<and> hijackerOk \<and> parseParams rv pd q = Inr p0 \<longrightarrow>
   fst (handler rv pd flusherOk hijackerOk ent q sessions) =
     sessions(id' p0 \<mapsto> wrap64 (counter sessions (id' p0) + 1)) \<and>
   (0 \<le> counter sessions (id' p0) \<and> counter sessions (id' p0) < 2 ^ 63 - 1 \<longrightarrow>
    (\<exists>dur code rest e.
       handler rv pd flusherOk hijackerOk ent q sessions =
         (sessions(id' p0 \<mapsto> counter sessions (id' p0) + 1),
          (if 0 < dur then [Sleep dur] else []) @ rest, e) \<and>
       delayDuration (p0\<lparr>sessionCount := counter sessions (id' p0)\<rparr>) ent = Inr dur \<and>
       statusCode (p0\<lparr>sessionCount := counter sessions (id' p0)\<rparr>) = Inr code \<and>
       (quot code 100 \<noteq> 2 \<and> 100 \<le> code \<and> code \<le> 999 \<longrightarrow>
          rest = [HttpError (StatusText code) code] \<and> e = Returned) \<and>
       (code < 100 \<or> 999 < code \<longrightarrow>
          rest = [] \<and> e = Panicked (InvalidWriteHeaderCode code))))"
proof (intro impI conjI)
  assume a: "flusherOk \<and> hijackerOk \<and> parseParams rv pd q = Inr p0"
  then show "fst (handler rv pd flusherOk hijackerOk ent q sessions) =
     sessions(id' p0 \<mapsto> wrap64 (counter sessions (id' p0) + 1))"
    using handler_step[of rv pd q p0 ent sessions] by simp
  assume c: "0 \<le> counter sessions (id' p0) \<and> counter sessions (id' p0) < 2 ^ 63 - 1"
  then have "wrap64 (counter sessions (id' p0) + 1) = counter sessions (id' p0) + 1"
    by (intro wrap64_id) auto
  with a c show "\<exists>dur code rest e.
       handler rv pd flusherOk hijackerOk ent q sessions =
         (sessions(id' p0 \<mapsto> counter sessions (id' p0) + 1),
          (if 0 < dur then [Sleep dur] else []) @ rest, e) \<and>
       delayDuration (p0\<lparr>sessionCount := counter sessions (id' p0)\<rparr>) ent = Inr dur \<and>
       statusCode (p0\<lparr>sessionCount := counter sessions (id' p0)\<rparr>) = Inr code \<and>
       (quot code 100 \<noteq> 2 \<and> 100 \<le> code \<and> code \<le> 999 \<longrightarrow>
          rest = [HttpError (StatusText code) code] \<and> e = Returned) \<and>
       (code < 100 \<or> 999 < code \<longrightarrow>
          rest = [] \<and> e = Panicked (InvalidWriteHeaderCode code))"
    using handler_delay_then_status[of rv pd q p0 sessions ent] by simp
qed

text \<open>The second request of a session with \<^verbatim>\<open>delay=0s,1s\<close> and \<^verbatim>\<open>codes=200,500\<close>:
  the counter goes from 1 to 2, one second of sleep, then the 500. And the same request
  with \<^verbatim>\<open>codes=200,0\<close>: the counter goes from 1 to 2, one second of sleep, then the panic.\<close>

theorem C10_step_and_delay_before_status_witness:
  "parseParams WithUsage sampleDurations
     [''size'' \<mapsto> [''10''], ''delay'' \<mapsto> [''0s,1s''], ''codes'' \<mapsto> [''200,500''],
      ''id'' \<mapsto> [''a'']] =
     Inr (zeroParams\<lparr>id' := ''a'', delays := [0, Second], codes := [200, 500], size' := 10\<rparr>) \<and>
   0 \<le> counter [''a'' \<mapsto> 1] ''a'' \<and> counter [''a'' \<mapsto> 1] ''a'' < 2 ^ 63 - 1 \<and>
   handler WithUsage sampleDurations True True sampleEntropy
     [''size'' \<mapsto> [''10''], ''delay'' \<mapsto> [''0s,1s''], ''codes'' \<mapsto> [''200,500''],
      ''id'' \<mapsto> [''a'']] [''a'' \<mapsto> 1] =
     ([''a'' \<mapsto> 2], [Sleep Second, HttpError (StatusText 500) 500], Returned) \<and>
   parseParams WithUsage sampleDurations
     [''size'' \<mapsto> [''10''], ''delay'' \<mapsto> [''0s,1s''], ''codes'' \<mapsto> [''200,0''],
      ''id'' \<mapsto> [''a'']] =
     Inr (zeroParams\<lparr>id' := ''a'', delays := [0, Second], codes := [200, 0], size' := 10\<rparr>) \<and>
   handler WithUsage sampleDurations True True sampleEntropy
     [''size'' \<mapsto> [''10''], ''delay'' \<mapsto> [''0s,1s''], ''codes'' \<mapsto> [''200,0''],
      ''id'' \<mapsto> [''a'']] [''a'' \<mapsto> 1] =
     ([''a'' \<mapsto> 2], [Sleep Second], Panicked (InvalidWriteHeaderCode 0))"
proof -
  let ?q = "[''size'' \<mapsto> [''10''], ''delay'' \<mapsto> [''0s,1s''], ''codes'' \<mapsto> [''200,500''],
      ''id'' \<mapsto> [''a'']]"
  let ?p = "zeroParams\<lparr>id' := ''a'', delays := [0, Second], codes := [200, 500], size' := 10\<rparr>"
  let ?qz = "[''size'' \<mapsto> [''10''], ''delay'' \<mapsto> [''0s,1s''], ''codes'' \<mapsto> [''200,0''],
      ''id'' \<mapsto> [''a'']]"
  let ?pz = "zeroParams\<lparr>id' := ''a'', delays := [0, Second], codes := [200, 0], size' := 10\<rparr>"
  have parse: "parseParams WithUsage sampleDurations ?q = Inr ?p"
    by (simp add: parse_eval sampleDurations_def)
  have parse0: "parseParams WithUsage sampleDurations ?qz = Inr ?pz"
    by (simp add: parse_eval sampleDurations_def)
  have c: "counter [''a'' \<mapsto> 1] ''a'' = 1" by (simp add: counter_def)
  have id: "id' ?p = ''a''" "id' ?pz = ''a''" by (simp_all add: zeroParams_def)
  have dur: "delayDuration (?p\<lparr>sessionCount := 1\<rparr>) sampleEntropy = Inr Second"
      "delayDuration (?pz\<lparr>sessionCount := 1\<rparr>) sampleEntropy = Inr Second"
    by (simp_all add: delayDuration_def at_def zeroParams_def)
  have code: "statusCode (?p\<lparr>sessionCount := 1\<rparr>) = Inr 500"
      "statusCode (?pz\<lparr>sessionCount := 1\<rparr>) = Inr 0"
    by (simp_all add: statusCode_def at_def zeroParams_def)
  have q: "quot 500 100 \<noteq> 2" by (simp add: quot_def)
  have s: "(0::int) < Second" by (simp add: Second_def)
  from C10_step_and_delay_before_status
         [of True True WithUsage sampleDurations ?q ?p sampleEntropy "[''a'' \<mapsto> 1]"]
  have h1: "handler WithUsage sampleDurations True True sampleEntropy ?q [''a'' \<mapsto> 1] =
     ([''a'' \<mapsto> 1, ''a'' \<mapsto> 2], [Sleep Second, HttpError (StatusText 500) 500], Returned)"
    using parse c id(1) dur(1) code(1) q s by auto
  from C10_step_and_delay_before_status
         [of True True WithUsage sampleDurations ?qz ?pz sampleEntropy "[''a'' \<mapsto> 1]"]
  have h2: "handler WithUsage sampleDurations True True sampleEntropy ?qz [''a'' \<mapsto> 1] =
     ([''a'' \<mapsto> 1, ''a'' \<mapsto> 2], [Sleep Second], Panicked (InvalidWriteHeaderCode 0))"
    using parse0 c id(2) dur(2) code(2) s by auto
  show ?thesis using parse parse0 c h1 h2 by simp
qed

section \<open>Malformed queries\<close>

text \<open>
  Claim C5, as amended. On a connection that can be flushed and hijacked, a request whose
  query is malformed (the size is missing, or a token of size, bps, delay, cutOffs or codes
  cannot be parsed), and whose delay is not two pieces around a \<open>-\<close> with a first piece
  that is a duration, gets the response 400 with the parse error, which names the token
  or the value that could not be parsed, and the registry is the one before the call.
\<close>

theorem C5_malformed_query_400:
  "flusherOk \<and> hijackerOk \<and> malformed pd q \<and> \<not> rangeStart pd q \<longrightarrow>
   (\<exists>e. handler rv pd flusherOk hijackerOk ent q sessions =
           (sessions, [HttpError (ParseFailure e (rv = WithUsage)) 400], Returned) \<and>
        names rv pd q e)"
proof
  assume a: "flusherOk \<and> hijackerOk \<and> malformed pd q \<and> \<not> rangeStart pd q"
  then obtain e where e: "parseParams rv pd q = Inl (Failure e)" "names rv pd q e"
    using parseParams_malformed[of pd q rv] by auto
  then have "handler rv pd flusherOk hijackerOk ent q sessions =
           (sessions, [HttpError (ParseFailure e (rv = WithUsage)) 400], Returned)"
    using a by (simp add: handler_def)
  then show "\<exists>e. handler rv pd flusherOk hijackerOk ent q sessions =
           (sessions, [HttpError (ParseFailure e (rv = WithUsage)) 400], Returned) \<and>
        names rv pd q e"
    using e(2) by blast
qed

text \<open>The queries \<^verbatim>\<open>size=12x&id=a\<close> and \<^verbatim>\<open>bps=10\<close>.\<close>

theorem C5_malformed_query_400_witness:
  "malformed sampleDurations [''size'' \<mapsto> [''12x''], ''id'' \<mapsto> [''a'']] \<and>
   handler WithUsage sampleDurations True True sampleEntropy
       [''size'' \<mapsto> [''12x''], ''id'' \<mapsto> [''a'']] [''a'' \<mapsto> 3] =
     ([''a'' \<mapsto> 3], [HttpError (ParseFailure (CantParseSize ''12x'') True) 400], Returned) \<and>
   malformed sampleDurations [''bps'' \<mapsto> [''10'']] \<and>
   handler Plain sampleDurations True True sampleEntropy [''bps'' \<mapsto> [''10'']] Map.empty =
     (Map.empty, [HttpError (ParseFailure MissingSize False) 400], Returned)"
proof -
  let ?q1 = "[''size'' \<mapsto> [''12x''], ''id'' \<mapsto> [''a'']]"
  let ?q2 = "[''bps'' \<mapsto> [''10'']]"
  have m1: "malformed sampleDurations ?q1"
    by (simp add: malformed_def Get_def Atoi_def digitVal_def)
  have r1: "\<not> rangeStart sampleDurations ?q1" by (simp add: rangeStart_def Get_def)
  have m2: "malformed sampleDurations ?q2" by (simp add: malformed_def Get_def)
  have r2: "\<not> rangeStart sampleDurations ?q2" by (simp add: rangeStart_def Get_def)
  have p1: "parseParams WithUsage sampleDurations ?q1 = Inl (Failure (CantParseSize ''12x''))"
    by (simp add: parse_eval)
  have p2: "parseParams Plain sampleDurations ?q2 = Inl (Failure MissingSize)"
    by (simp add: parse_eval)
  from C5_malformed_query_400[of True True sampleDurations ?q1 WithUsage sampleEntropy
      "[''a'' \<mapsto> 3]"] m1 r1
  have h1: "handler WithUsage sampleDurations True True sampleEntropy ?q1 [''a'' \<mapsto> 3] =
     ([''a'' \<mapsto> 3], [HttpError (ParseFailure (CantParseSize ''12x'') True) 400], Returned)"
    by (auto simp: handler_def p1)
  from C5_malformed_query_400[of True True sampleDurations ?q2 Plain sampleEntropy Map.empty]
    m2 r2
  have h2: "handler Plain sampleDurations True True sampleEntropy ?q2 Map.empty =
     (Map.empty, [HttpError (ParseFailure MissingSize False) 400], Returned)"
    by (auto simp: handler_def p2)
  show ?thesis using m1 m2 h1 h2 by simp
qed

text \<open>
  The claim as stated fails twice. The handler checks first that the response writer is
  a flusher and a hijacker, and answers 500 before it parses anything; and a query
  with a missing size and \<^verbatim>\<open>delay=0ms-1s\<close> makes the parser panic before it looks
  at the size, so no 400 is written.
\<close>

theorem C5_guard_and_panic_counterexample:
  "malformed sampleDurations Map.empty \<and>
   handler Plain sampleDurations True False sampleEntropy Map.empty Map.empty =
     (Map.empty, [HttpError (Text ''Hijacking not supported by this connection'') 500],
      Returned) \<and>
   malformed sampleDurations [''delay'' \<mapsto> [''0ms-1s'']] \<and>
   handler Plain sampleDurations True True sampleEntropy [''delay'' \<mapsto> [''0ms-1s'']] Map.empty =
     (Map.empty, [], Panicked (IndexOutOfRange 0 0))"
proof -
  have "parseParams Plain sampleDurations [''delay'' \<mapsto> [''0ms-1s'']] =
          Inl (Panic (IndexOutOfRange 0 0))"
    by (simp add: parse_eval sampleDurations_def setAt_def)
  then show ?thesis
    by (simp add: handler_def malformed_def Get_def)
qed

section \<open>The size of a parsed descriptor\<close>

text \<open>
  Claim C7, as amended. The size of a descriptor that a successful parse produces is the
  integer that the size value denotes for \<^verbatim>\<open>strconv.Atoi\<close>, within the range of a 64-bit
  integer; it is not negative when the value does not start with a minus sign.
\<close>

theorem C7_size_is_the_parsed_integer:
  "parseParams rv pd q = Inr p \<longrightarrow>
     Atoi (Get q ''size'') = Some (size' p) \<and> - (2 ^ 63) \<le> size' p \<and> size' p < 2 ^ 63 \<and>
     (hd (Get q ''size'') \<noteq> CHR ''-'' \<longrightarrow> 0 \<le> size' p)"
proof
  assume "parseParams rv pd q = Inr p"
  from parseParams_Inr(1)[OF this] have a: "Atoi (Get q ''size'') = Some (size' p)" by auto
  from Atoi_range[OF a] Atoi_sign[OF a] a
  show "Atoi (Get q ''size'') = Some (size' p) \<and> - (2 ^ 63) \<le> size' p \<and> size' p < 2 ^ 63 \<and>
     (hd (Get q ''size'') \<noteq> CHR ''-'' \<longrightarrow> 0 \<le> size' p)"
    by simp
qed

theorem C7_size_is_the_parsed_integer_witness:
  "parseParams WithUsage sampleDurations [''size'' \<mapsto> [''1000'']] =
     Inr (zeroParams\<lparr>size' := 1000\<rparr>) \<and>
   Atoi (Get [''size'' \<mapsto> [''1000'']] ''size'') = Some 1000 \<and>
   hd (Get [''size'' \<mapsto> [''1000'']] ''size'') \<noteq> CHR ''-'' \<and>
   0 \<le> size' (zeroParams\<lparr>size' := 1000\<rparr>)"
proof -
  have p: "parseParams WithUsage sampleDurations [''size'' \<mapsto> [''1000'']] =
     Inr (zeroParams\<lparr>size' := 1000\<rparr>)"
    by (simp add: parse_eval)
  have h: "hd (Get [''size'' \<mapsto> [''1000'']] ''size'') \<noteq> CHR ''-''" by (simp add: Get_def)
  from C7_size_is_the_parsed_integer[of WithUsage sampleDurations "[''size'' \<mapsto> [''1000'']]"
      "zeroParams\<lparr>size' := 1000\<rparr>"] p h
  show ?thesis by simp
qed

text \<open>The claim as stated fails: the parser has no check of the sign, and
  \<^verbatim>\<open>size=-5\<close> parses into a descriptor of size \<open>-5\<close> in both revisions.\<close>

theorem C7_negative_size_counterexample:
  "parseParams Plain sampleDurations [''size'' \<mapsto> [''-5'']] = Inr (zeroParams\<lparr>size' := - 5\<rparr>) \<and>
   parseParams WithUsage sampleDurations [''size'' \<mapsto> [''-5'']] =
     Inr (zeroParams\<lparr>size' := - 5\<rparr>) \<and>
   size' (zeroParams\<lparr>size' := - 5\<rparr>) < 0"
  by (simp add: parse_eval)

section \<open>The cutoff of a step\<close>

lemma Split_nonempty: "Split s c \<noteq> []"
  by (induction s) (auto split: list.splits)

text \<open>In the revision with the usage text, the cutoff of step \<open>n\<close> that a parsed query
  resolves is the one the specification reads off the \<^verbatim>\<open>cutOffs\<close> value.\<close>

lemma cutOff_resolved_WithUsage:
  assumes "parseParams WithUsage pd q = Inr p"
  shows "map_option Inr (specCutOff (Get q ''cutOffs'') n) =
           Some (cutOff (p\<lparr>sessionCount := int n\<rparr>))"
proof -
  let ?v = "Get q ''cutOffs''"
  let ?toks = "Split ?v CHR '',''"
  let ?f = "\<lambda>t. if TrimSpace t = [] then - 1 else the (Atoi (TrimSpace t))"
  from parseParams_Inr(1)[OF assms]
  have cs: "cutOffs p = (if ?v = [] then [] else map ?f ?toks)" by auto
  have ok: "\<not> badInts ?v" using parseParams_Inr(2)[OF assms] by (simp add: malformed_def)
  show ?thesis
  proof (cases "?v = []")
    case True
    then show ?thesis using cs by (simp add: cutOff_def specCutOff_def TrimSpace_Nil)
  next
    case False
    let ?i = "min n (length ?toks - 1)"
    have len: "0 < length ?toks" using Split_nonempty[of ?v "CHR '',''"] by simp
    then have i: "?i < length ?toks" by linarith
    have "cutOff (p\<lparr>sessionCount := int n\<rparr>) = Inr (map ?f ?toks ! ?i)"
    proof (cases "n < length ?toks")
      case True
      then have "?i = n" by simp
      then show ?thesis using True cs False len by (simp add: cutOff_def at_def)
    next
      case big: False
      then have "?i = length ?toks - 1" by simp
      moreover have "nat (int (length ?toks) - 1) = length ?toks - 1" by simp
      ultimately show ?thesis using big cs False len
        by (simp add: cutOff_def at_def del: nth_map)
    qed
    then have c: "cutOff (p\<lparr>sessionCount := int n\<rparr>) = Inr (?f (?toks ! ?i))"
      using i by simp
    have "?toks ! ?i \<in> set ?toks" using i by (rule nth_mem)
    then have "TrimSpace (?toks ! ?i) = [] \<or> Atoi (TrimSpace (?toks ! ?i)) \<noteq> None"
      using ok by (auto simp: badInts_def)
    then show ?thesis using c by (auto simp: specCutOff_def Let_def)
  qed
qed

text \<open>
  Claim C6 says that an empty piece of \<^verbatim>\<open>cutOffs\<close> stands for no truncation at its
  step, so that \<^verbatim>\<open>cutOffs=,,300\<close> resolves to no truncation at the steps 0 and 1. The
  revision with the usage text does so (the lemma above, and the last two equations
  here). Revision \<open>Plain\<close> drops the empty pieces: the same value parses into the one
  entry 300, and the first request is cut after 300 bytes.
\<close>

theorem C6_plain_revision_skips_empty_tokens:
  "parseParams Plain sampleDurations [''size'' \<mapsto> [''1000''], ''cutOffs'' \<mapsto> ['',,300'']] =
     Inr (zeroParams\<lparr>size' := 1000, cutOffs := [300]\<rparr>) \<and>
   cutOff (zeroParams\<lparr>size' := 1000, cutOffs := [300], sessionCount := 0\<rparr>) = Inr 300 \<and>
   specCutOff '',,300'' 0 = Some (- 1) \<and>
   parseParams WithUsage sampleDurations [''size'' \<mapsto> [''1000''], ''cutOffs'' \<mapsto> ['',,300'']] =
     Inr (zeroParams\<lparr>size' := 1000, cutOffs := [- 1, - 1, 300]\<rparr>) \<and>
   cutOff (zeroParams\<lparr>size' := 1000, cutOffs := [- 1, - 1, 300], sessionCount := 0\<rparr>) =
     Inr (- 1)"
proof -
  have "parseParams Plain sampleDurations
          [''size'' \<mapsto> [''1000''], ''cutOffs'' \<mapsto> ['',,300'']] =
        Inr (zeroParams\<lparr>size' := 1000, cutOffs := [300]\<rparr>)"
    by (simp add: parse_eval)
  moreover have "parseParams WithUsage sampleDurations
          [''size'' \<mapsto> [''1000''], ''cutOffs'' \<mapsto> ['',,300'']] =
        Inr (zeroParams\<lparr>size' := 1000, cutOffs := [- 1, - 1, 300]\<rparr>)"
    by (simp add: parse_eval)
  moreover have "specCutOff '',,300'' 0 = Some (- 1)"
    by (simp add: specCutOff_def Let_def TrimSpace_Nil)
  ultimately show ?thesis
    by (simp add: cutOff_def at_def zeroParams_def)
qed

section \<open>The headers of a 2xx response\<close>

text \<open>
  Claim C3 says that a 2xx response carries the Content-Type chosen by \<^verbatim>\<open>isBinary\<close> and
  a Content-Length equal to the full size. The handler adds both headers, but after
  \<^verbatim>\<open>w.WriteHeader(code)\<close>: on every 2xx request the two additions follow the call
  that sends the header, so the header sent holds neither of them.
\<close>

theorem C3_headers_follow_WriteHeader:
  "flusherOk \<and> hijackerOk \<and> parseParams rv pd q = Inr p0 \<and>
   0 \<le> counter sessions (id' p0) \<and>
   statusCode (p0\<lparr>sessionCount := counter sessions (id' p0)\<rparr>) = Inr code \<and>
   quot code 100 = 2 \<longrightarrow>
   (\<exists>slept rest.
      fst (snd (handler rv pd flusherOk hijackerOk ent q sessions)) =
        slept @
        [WriteHeader code,
         HeaderAdd ''Content-Type''
           (if isBinary p0 then ''application/octet-stream''
            else ''text/plain; charset=us-ascii''),
         HeaderAdd ''Content-Length'' (Itoa (size' p0))] @ rest \<and>
      sentHeader slept = []) \<and>
   sentHeader (fst (snd (handler rv pd flusherOk hijackerOk ent q sessions))) = []"
proof
  assume a: "flusherOk \<and> hijackerOk \<and> parseParams rv pd q = Inr p0 \<and>
   0 \<le> counter sessions (id' p0) \<and>
   statusCode (p0\<lparr>sessionCount := counter sessions (id' p0)\<rparr>) = Inr code \<and>
   quot code 100 = 2"
  let ?p = "p0\<lparr>sessionCount := counter sessions (id' p0)\<rparr>"
  let ?h = "handler rv pd flusherOk hijackerOk ent q sessions"
  let ?hd = "[WriteHeader code,
         HeaderAdd ''Content-Type''
           (if isBinary p0 then ''application/octet-stream''
            else ''text/plain; charset=us-ascii''),
         HeaderAdd ''Content-Length'' (Itoa (size' p0))]"
  from a handler_parsed[of rv pd q p0 sessions ent] obtain dur where
    h: "?h = (sessions(id' p0 \<mapsto> wrap64 (counter sessions (id' p0) + 1)),
              stream ent ?p code (if 0 < dur then [Sleep dur] else []))"
    by auto
  let ?slept = "if 0 < dur then [Sleep dur] else []"
  obtain rest where "fst (stream ent ?p code ?slept) = ?slept @ ?hd @ rest"
    using stream_extends[of ent ?p code ?slept] by auto
  then have tr: "fst (snd ?h) = ?slept @ ?hd @ rest" using h by simp
  have s: "sentHeader ?slept = []" by simp
  have "sentHeader (?slept @ ?hd @ rest) = []" by simp
  then have "sentHeader (fst (snd ?h)) = []" using tr by simp
  then show "(\<exists>slept rest. fst (snd ?h) = slept @ ?hd @ rest \<and> sentHeader slept = []) \<and>
      sentHeader (fst (snd ?h)) = []"
    using tr s by blast
qed

text \<open>The query \<^verbatim>\<open>size=10&cutOffs=3\<close>.\<close>

theorem C3_headers_follow_WriteHeader_witness:
  "parseParams WithUsage sampleDurations [''size'' \<mapsto> [''10''], ''cutOffs'' \<mapsto> [''3'']] =
     Inr (zeroParams\<lparr>size' := 10, cutOffs := [3]\<rparr>) \<and>
   statusCode (zeroParams\<lparr>size' := 10, cutOffs := [3]\<rparr>) = Inr 200 \<and>
   quot 200 100 = 2 \<and>
   fst (snd (handler WithUsage sampleDurations True True sampleEntropy
               [''size'' \<mapsto> [''10''], ''cutOffs'' \<mapsto> [''3'']] Map.empty)) =
     [WriteHeader 200, HeaderAdd ''Content-Type'' ''text/plain; charset=us-ascii'',
      HeaderAdd ''Content-Length'' ''10'', Write ''036'', Flush, HijackClose] \<and>
   sentHeader (fst (snd (handler WithUsage sampleDurations True True sampleEntropy
               [''size'' \<mapsto> [''10''], ''cutOffs'' \<mapsto> [''3'']] Map.empty))) = []"
proof -
  let ?q = "[''size'' \<mapsto> [''10''], ''cutOffs'' \<mapsto> [''3'']]"
  let ?p = "zeroParams\<lparr>size' := 10, cutOffs := [3]\<rparr>"
  have parse: "parseParams WithUsage sampleDurations ?q = Inr ?p"
    by (simp add: parse_eval)
  have c: "counter Map.empty (id' ?p) = 0" by (simp add: counter_def)
  have code: "statusCode (?p\<lparr>sessionCount := 0\<rparr>) = Inr 200" "statusCode ?p = Inr 200"
    by (simp_all add: statusCode_def zeroParams_def)
  have q: "quot 200 100 = 2" by (simp add: quot_def)
  have tr: "fst (snd (handler WithUsage sampleDurations True True sampleEntropy ?q Map.empty)) =
     [WriteHeader 200, HeaderAdd ''Content-Type'' ''text/plain; charset=us-ascii'',
      HeaderAdd ''Content-Length'' ''10'', Write ''036'', Flush, HijackClose]"
    by (simp add: handler_def parse resolve_eval zeroParams_def stream_def payload_def
        randString_def makeOutOfRange_def maxAlloc_def sampleEntropy_def IntN_def
        letterRunes_def upt_rec Itoa_def natDigits.simps deliver.simps Let_def)
  from C3_headers_follow_WriteHeader
         [of True True WithUsage sampleDurations ?q ?p Map.empty 200 sampleEntropy]
       parse c code(1) q
  have "sentHeader (fst (snd (handler WithUsage sampleDurations True True sampleEntropy
               ?q Map.empty))) = []"
    by simp
  then show ?thesis using parse code(2) q tr by simp
qed

end
